theory Spec2Isabelle
  imports Complex_Main "HOL-Library.Sublist" "HOL-Library.Product_Lexorder"
begin

section \<open>Python strings and slices\<close>

text \<open>
  A Python \<^verbatim>\<open>str\<close> is a sequence of code points. It is modelled as a \<^typ>\<open>string\<close> in
  which every \<^typ>\<open>char\<close> stands for one code point below 256, so that \<^const>\<open>length\<close> is
  Python's \<^verbatim>\<open>len\<close>. Python integers are \<^typ>\<open>int\<close>.
\<close>

definition py_isspace :: "char \<Rightarrow> bool" where
  \<comment> \<open>\<^verbatim>\<open>str.isspace\<close> on one code point below 256\<close>
  "py_isspace c = ((of_char c :: nat) \<in> {9, 10, 11, 12, 13, 28, 29, 30, 31, 32, 133, 160})"

definition py_lower_char :: "char \<Rightarrow> char" where
  \<comment> \<open>\<^verbatim>\<open>str.lower\<close> on one code point below 256: A-Z and the Latin-1 capitals\<close>
  "py_lower_char c =
     (let n = (of_char c :: nat)
      in if (65 \<le> n \<and> n \<le> 90) \<or> (192 \<le> n \<and> n \<le> 222 \<and> n \<noteq> 215)
         then char_of (n + 32) else c)"

definition py_lower :: "string \<Rightarrow> string" where
  "py_lower s = map py_lower_char s"

definition py_strip :: "string \<Rightarrow> string" where
  \<comment> \<open>\<^verbatim>\<open>str.strip()\<close>: leading and trailing whitespace removed\<close>
  "py_strip s = rev (dropWhile py_isspace (rev (dropWhile py_isspace s)))"

fun py_split_from :: "string \<Rightarrow> string \<Rightarrow> string list" where
  \<comment> \<open>\<^verbatim>\<open>str.split()\<close>: maximal runs of non-whitespace; the second argument is the run read so far\<close>
  "py_split_from cur [] = (if cur = [] then [] else [cur])"
| "py_split_from cur (c # cs) =
     (if py_isspace c
      then (if cur = [] then py_split_from [] cs else cur # py_split_from [] cs)
      else py_split_from (cur @ [c]) cs)"

definition py_split :: "string \<Rightarrow> string list" where
  "py_split s = py_split_from [] s"

fun contains :: "'a list \<Rightarrow> 'a list \<Rightarrow> bool" where
  \<comment> \<open>\<^verbatim>\<open>sub in s\<close> on strings: \<open>sub\<close> occurs as a contiguous substring of \<open>s\<close>\<close>
  "contains sub [] = (sub = [])"
| "contains sub (c # cs) = (prefix sub (c # cs) \<or> contains sub cs)"

definition py_index :: "int \<Rightarrow> int \<Rightarrow> int" where
  \<comment> \<open>how a slice bound is read against a sequence of length \<open>n\<close>: a negative bound counts
      from the end, and every bound is clamped to \<open>0..n\<close>\<close>
  "py_index n i = (if i < 0 then max 0 (i + n) else min i n)"

definition py_slice :: "'a list \<Rightarrow> int \<Rightarrow> int \<Rightarrow> 'a list" where
  \<comment> \<open>\<^verbatim>\<open>xs[a:b]\<close>\<close>
  "py_slice xs a b =
     (let n = int (length xs); lo = py_index n a; hi = py_index n b
      in take (nat (hi - lo)) (drop (nat lo) xs))"

definition py_take :: "int \<Rightarrow> 'a list \<Rightarrow> 'a list" where
  \<comment> \<open>\<^verbatim>\<open>xs[:k]\<close>\<close>
  "py_take k xs = take (nat (py_index (int (length xs)) k)) xs"

fun rfind :: "'a list \<Rightarrow> 'a \<Rightarrow> int" where
  \<comment> \<open>\<^verbatim>\<open>s.rfind(c)\<close> for a one-character \<open>c\<close>: the highest index holding \<open>c\<close>, or -1\<close>
  "rfind [] c = - 1"
| "rfind (x # xs) c =
     (let r = rfind xs c in if 0 \<le> r then r + 1 else if x = c then 0 else - 1)"

section \<open>The chunker (\<^verbatim>\<open>DocumentProcessor.chunk_text\<close>)\<close>

definition chunk_window :: "string \<Rightarrow> int \<Rightarrow> int \<Rightarrow> string \<times> int" where
  \<comment> \<open>lines 86-99 of one iteration: the candidate chunk and the position \<open>end\<close> for a cursor
      \<open>start\<close>. As in the source, \<open>break_point\<close> is an index into \<open>chunk\<close> and is compared
      with, and used as, a position in \<open>text\<close>.\<close>
  "chunk_window text chunk_size start =
     (let text_length = int (length text);
          end0 = start + chunk_size;
          end1 = (if end0 > text_length then text_length else end0);
          chunk = py_slice text start end1
      in if end1 < text_length
         then (let last_period = rfind chunk (CHR ''.'');
                   last_newline = rfind chunk (CHR 0x0A);
                   break_point = max last_period last_newline
               in if break_point > start + chunk_size div 2
                  then (py_slice text start (break_point + 1), break_point + 1)
                  else (chunk, end1))
         else (chunk, end1))"

definition chunk_body :: "string \<Rightarrow> int \<Rightarrow> int \<Rightarrow> int \<times> string list \<Rightarrow> int \<times> string list" where
  \<comment> \<open>one iteration of the \<^verbatim>\<open>while\<close> loop on the state \<open>(start, chunks)\<close>\<close>
  "chunk_body text chunk_size overlap st =
     (let (chunk0, end) = chunk_window text chunk_size (fst st);
          chunk = py_strip chunk0;
          chunks = (if length chunk > 100 then snd st @ [chunk] else snd st)
      in (end - overlap, chunks))"

definition chunk_cond :: "string \<Rightarrow> int \<Rightarrow> int \<times> string list \<Rightarrow> bool" where
  \<comment> \<open>the loop condition \<^verbatim>\<open>start < text_length and len(chunks) < max_chunks\<close>\<close>
  "chunk_cond text max_chunks st =
     (fst st < int (length text) \<and> int (length (snd st)) < max_chunks)"

partial_function (option) chunk_loop ::
  "string \<Rightarrow> int \<Rightarrow> int \<Rightarrow> int \<Rightarrow> int \<times> string list \<Rightarrow> string list option" where
  \<comment> \<open>the \<^verbatim>\<open>while\<close> loop; \<open>None\<close> is a run that never leaves the loop\<close>
  "chunk_loop text chunk_size overlap max_chunks st =
     (if chunk_cond text max_chunks st
      then chunk_loop text chunk_size overlap max_chunks (chunk_body text chunk_size overlap st)
      else Some (snd st))"

definition chunk_text :: "string \<Rightarrow> int \<Rightarrow> int \<Rightarrow> int \<Rightarrow> string list option" where
  \<comment> \<open>\<^verbatim>\<open>chunk_text(text, chunk_size, overlap, max_chunks)\<close>; the defaults are 2000, 200, 500\<close>
  "chunk_text text chunk_size overlap max_chunks =
     (let text1 = (if length text > 500000 then py_slice text 0 500000 else text)
      in chunk_loop text1 chunk_size overlap max_chunks (0, []))"

section \<open>Failures and the external services\<close>

datatype py_error = IndexError | KeyError | ZeroDivisionError | OSError | ServiceError

definition py_truediv :: "int \<Rightarrow> int \<Rightarrow> py_error + real" where
  \<comment> \<open>\<^verbatim>\<open>a / b\<close> on integers; the rounding of the float result is not modelled\<close>
  "py_truediv a b = (if b = 0 then Inl ZeroDivisionError else Inr (real_of_int a / real_of_int b))"

type_synonym embedding = "real list"

type_synonym embed_service = "string \<Rightarrow> string \<Rightarrow> string \<Rightarrow> py_error + embedding"
  \<comment> \<open>\<^verbatim>\<open>genai.embed_content(model, content, task_type)['embedding']\<close>, or the exception it raised\<close>

datatype meta_value = MStr string | MInt int

type_synonym metadata = "(string \<times> meta_value) list"
  \<comment> \<open>a metadata dictionary, keys in insertion order; \<^verbatim>\<open>{}\<close> is \<open>[]\<close>\<close>

record chroma_result =
  documents :: "string list"
  metadatas :: "metadata list"
  distances :: "real list option"
  \<comment> \<open>what \<^verbatim>\<open>collection.query\<close> (for its one query vector) and \<^verbatim>\<open>collection.get\<close> return;
      \<open>distances = None\<close> when the key is absent\<close>

record collection_handle =
  coll_count :: "py_error + nat"
  coll_query :: "embedding \<Rightarrow> int \<Rightarrow> py_error + chroma_result"
  coll_get :: "py_error + chroma_result"
  \<comment> \<open>the three read operations of one collection of the external vector store, each
      either its value or the exception it raised\<close>

record doc_processor =
  embed_content :: embed_service
  nec_collection :: collection_handle
  wattmonk_collection :: collection_handle

record search_result =
  content :: string
  metadata :: metadata
  distance :: real
  collection :: string
  keyword_matches :: "int option"
  \<comment> \<open>a result dictionary; \<open>keyword_matches\<close> is present only in keyword results\<close>

section \<open>The embedder (\<^verbatim>\<open>generate_embeddings\<close>)\<close>

definition generate_embeddings :: "embed_service \<Rightarrow> string \<Rightarrow> embedding" where
  "generate_embeddings service text =
     (case service ''models/text-embedding-004'' text ''retrieval_document'' of
        Inr e \<Rightarrow> e
      | Inl _ \<Rightarrow>
          (case service ''models/embedding-001'' text ''retrieval_document'' of
             Inr e \<Rightarrow> e
           | Inl _ \<Rightarrow> []))"

section \<open>Semantic search (\<^verbatim>\<open>search_documents\<close>)\<close>

definition select_collections ::
  "doc_processor \<Rightarrow> string option \<Rightarrow> (string \<times> collection_handle) list" where
  \<comment> \<open>\<^verbatim>\<open>collections_to_search\<close>\<close>
  "select_collections dp document_type =
     (if document_type = None \<or> map_option py_lower document_type = Some ''nec''
      then [(''nec'', nec_collection dp)] else [])
     @ (if document_type = None \<or> map_option py_lower document_type = Some ''wattmonk''
        then [(''wattmonk'', wattmonk_collection dp)] else [])"

fun hits_loop ::
  "string \<Rightarrow> chroma_result \<Rightarrow> nat list \<Rightarrow> search_result list
     \<Rightarrow> search_result list \<times> py_error option" where
  \<comment> \<open>\<^verbatim>\<open>for i in range(len(documents)): results.append({...})\<close>: the list \<open>results\<close> after the
      loop, and the \<^verbatim>\<open>IndexError\<close> that ended it early, if any\<close>
  "hits_loop name r [] results = (results, None)"
| "hits_loop name r (i # rest) results =
     (if i < length (metadatas r)
      then (case distances r of
              None \<Rightarrow>
                hits_loop name r rest
                  (results @ [\<lparr>content = documents r ! i, metadata = metadatas r ! i,
                               distance = 0, collection = name, keyword_matches = None\<rparr>])
            | Some ds \<Rightarrow>
                if i < length ds
                then hits_loop name r rest
                       (results @ [\<lparr>content = documents r ! i, metadata = metadatas r ! i,
                                    distance = ds ! i, collection = name,
                                    keyword_matches = None\<rparr>])
                else (results, Some IndexError))
      else (results, Some IndexError))"

definition search_collection ::
  "embedding \<Rightarrow> int \<Rightarrow> search_result list \<Rightarrow> string \<times> collection_handle
     \<Rightarrow> search_result list" where
  \<comment> \<open>the body of \<^verbatim>\<open>for collection_name, collection in collections_to_search\<close>, with its
      \<^verbatim>\<open>try/except\<close>\<close>
  "search_collection query_embedding n_results results nc =
     (case coll_count (snd nc) of
        Inl _ \<Rightarrow> results
      | Inr count \<Rightarrow>
          if count = 0 then results
          else (case coll_query (snd nc) query_embedding (min n_results (int count)) of
                  Inl _ \<Rightarrow> results
                | Inr r \<Rightarrow> fst (hits_loop (fst nc) r [0..<length (documents r)] results)))"

definition search_documents ::
  "doc_processor \<Rightarrow> string \<Rightarrow> string option \<Rightarrow> int \<Rightarrow> search_result list" where
  "search_documents dp query document_type n_results =
     (let query_embedding = generate_embeddings (embed_content dp) query
      in if query_embedding = [] then []
         else (let results = foldl (search_collection query_embedding n_results) []
                               (select_collections dp document_type)
               in py_take n_results (sort_key distance results)))"

section \<open>Keyword search (\<^verbatim>\<open>keyword_search\<close>)\<close>

fun collect_keywords :: "string list \<Rightarrow> string list \<Rightarrow> string list" where
  \<comment> \<open>\<^verbatim>\<open>for word in query_lower.split(): if len(word) > 2: keywords.append(word)\<close>\<close>
  "collect_keywords [] keywords = keywords"
| "collect_keywords (w # ws) keywords =
     collect_keywords ws (if length w > 2 then keywords @ [w] else keywords)"

definition match_count :: "string list \<Rightarrow> string \<Rightarrow> nat" where
  \<comment> \<open>\<^verbatim>\<open>sum(1 for keyword in keywords if keyword in doc_lower)\<close>\<close>
  "match_count keywords doc_lower = length (filter (\<lambda>keyword. contains keyword doc_lower) keywords)"

fun scan_docs ::
  "string \<Rightarrow> string list \<Rightarrow> chroma_result \<Rightarrow> nat list \<Rightarrow> search_result list
     \<Rightarrow> search_result list \<times> py_error option" where
  \<comment> \<open>\<^verbatim>\<open>for i, doc in enumerate(all_docs['documents'])\<close>: the list \<open>results\<close> after the loop,
      and the exception that ended it early, if any\<close>
  "scan_docs name keywords r [] results = (results, None)"
| "scan_docs name keywords r (i # rest) results =
     (let doc = documents r ! i;
          doc_lower = py_lower doc;
          m = match_count keywords doc_lower
      in if m > 0
         then (case (if metadatas r \<noteq> []
                     then (if i < length (metadatas r) then Inr (metadatas r ! i)
                           else Inl IndexError)
                     else Inr []) of
                 Inl e \<Rightarrow> (results, Some e)
               | Inr md \<Rightarrow>
                   (case py_truediv (int m) (int (length keywords)) of
                      Inl e \<Rightarrow> (results, Some e)
                    | Inr q \<Rightarrow>
                        scan_docs name keywords r rest
                          (results @ [\<lparr>content = doc, metadata = md, distance = 1 - q,
                                       collection = name,
                                       keyword_matches = Some (int m)\<rparr>])))
         else scan_docs name keywords r rest results)"

definition keyword_collection ::
  "string list \<Rightarrow> search_result list \<Rightarrow> string \<times> collection_handle \<Rightarrow> search_result list" where
  \<comment> \<open>the body of the loop over \<^verbatim>\<open>collections_to_search\<close>, with its \<^verbatim>\<open>try/except\<close>\<close>
  "keyword_collection keywords results nc =
     (case coll_get (snd nc) of
        Inl _ \<Rightarrow> results
      | Inr all_docs \<Rightarrow>
          if documents all_docs \<noteq> []
          then fst (scan_docs (fst nc) keywords all_docs [0..<length (documents all_docs)] results)
          else results)"

definition keyword_sort_key :: "search_result \<Rightarrow> int \<times> real" where
  \<comment> \<open>\<^verbatim>\<open>lambda x: (-x.get('keyword_matches', 0), x.get('distance', float('inf')))\<close>\<close>
  "keyword_sort_key x = (- (case keyword_matches x of None \<Rightarrow> 0 | Some m \<Rightarrow> m), distance x)"

definition keyword_search ::
  "doc_processor \<Rightarrow> string \<Rightarrow> string option \<Rightarrow> int \<Rightarrow> search_result list" where
  "keyword_search dp query document_type n_results =
     (let query_lower = py_lower query;
          keywords = collect_keywords (py_split query_lower) [];
          results = foldl (keyword_collection keywords) [] (select_collections dp document_type)
      in py_take n_results (sort_key keyword_sort_key results))"

section \<open>Retrieval merge (\<^verbatim>\<open>RAGChatbot.retrieve_context\<close>)\<close>

definition specific_terms :: "string list" where
  "specific_terms = [''zippy'', ''tool'', ''automation'', ''machine learning'', ''diagrams'']"

definition high_priority_terms :: "string list" where
  "high_priority_terms = [''zippy'']"

fun dedup_loop ::
  "search_result list \<Rightarrow> string set \<Rightarrow> search_result list \<Rightarrow> search_result list" where
  \<comment> \<open>the loop over \<^verbatim>\<open>combined_results\<close> with \<^verbatim>\<open>seen_content\<close> and \<^verbatim>\<open>unique_results\<close>\<close>
  "dedup_loop [] seen_content unique_results = unique_results"
| "dedup_loop (result # rest) seen_content unique_results =
     (let content_key = py_slice (content result) 0 100
      in if content_key \<notin> seen_content
         then dedup_loop rest (insert content_key seen_content) (unique_results @ [result])
         else dedup_loop rest seen_content unique_results)"

definition should_try_keyword :: "string \<Rightarrow> search_result list \<Rightarrow> bool" where
  "should_try_keyword query results =
     (let query_lower = py_lower query
      in if list_ex (\<lambda>term. contains term query_lower) high_priority_terms then True
         else if list_ex (\<lambda>term. contains term query_lower) specific_terms \<and> length results < 2
              then True
              else False)"

definition retrieve_context ::
  "doc_processor \<Rightarrow> string \<Rightarrow> string option \<Rightarrow> int \<Rightarrow> search_result list" where
  "retrieve_context dp query document_type n_results =
     (let results = search_documents dp query document_type n_results
      in if should_try_keyword query results
         then (let keyword_results = keyword_search dp query document_type n_results;
                   combined_results = keyword_results @ results;
                   unique_results = dedup_loop combined_results {} []
               in py_take n_results unique_results)
         else results)"

section \<open>Intent classification (\<^verbatim>\<open>RAGChatbot.classify_intent\<close>)\<close>

record intent_info =
  intent :: string
  confidence :: int
  document_type :: "string option"

definition nec_keywords :: "string list" where
  "nec_keywords = [''nec'', ''electrical code'', ''electrical standard'', ''wiring'', ''circuit'',
     ''voltage'', ''amperage'', ''grounding'', ''electrical safety'']"

definition wattmonk_keywords :: "string list" where
  "wattmonk_keywords = [''wattmonk'', ''company'', ''service'', ''solar design'', ''permitting'',
     ''zippy'', ''site survey'', ''solar'', ''engineering'', ''platform'', ''tool'', ''automation'']"

definition nec_score :: "string \<Rightarrow> int" where
  "nec_score query = int (length (filter (\<lambda>keyword. contains keyword (py_lower query)) nec_keywords))"

definition wattmonk_score :: "string \<Rightarrow> int" where
  "wattmonk_score query =
     int (length (filter (\<lambda>keyword. contains keyword (py_lower query)) wattmonk_keywords))"

definition classify_intent :: "string \<Rightarrow> intent_info" where
  "classify_intent query =
     (let query_lower = py_lower query
      in if nec_score query > wattmonk_score query \<and> nec_score query > 0
         then \<lparr>intent = ''nec'', confidence = nec_score query, document_type = Some ''nec''\<rparr>
         else if wattmonk_score query > nec_score query \<and> wattmonk_score query > 0
         then \<lparr>intent = ''wattmonk'', confidence = wattmonk_score query,
               document_type = Some ''wattmonk''\<rparr>
         else if contains ''nec'' query_lower \<or> contains ''electrical'' query_lower
         then \<lparr>intent = ''nec'', confidence = 1, document_type = Some ''nec''\<rparr>
         else if contains ''wattmonk'' query_lower \<or> contains ''company'' query_lower
         then \<lparr>intent = ''wattmonk'', confidence = 1, document_type = Some ''wattmonk''\<rparr>
         else \<lparr>intent = ''general'', confidence = 0, document_type = None\<rparr>)"

section \<open>Ingestion (\<^verbatim>\<open>DocumentProcessor.process_document\<close>)\<close>

record file_system =
  fs_pdf :: "string \<Rightarrow> py_error + (py_error + string) list"
  fs_docx :: "string \<Rightarrow> py_error + string list"
  fs_text :: "string \<Rightarrow> py_error + string"
  \<comment> \<open>what the three readers find at a path: the pages of a PDF (each its text or the
      exception its extraction raised), the paragraphs of a DOCX, the content of a text file;
      or the exception raised on opening\<close>

definition extract_text_from_pdf :: "file_system \<Rightarrow> string \<Rightarrow> int \<Rightarrow> string" where
  "extract_text_from_pdf fs pdf_path max_pages =
     (case fs_pdf fs pdf_path of
        Inl _ \<Rightarrow> []
      | Inr pages \<Rightarrow>
          foldl (\<lambda>text page. case page of Inr page_text \<Rightarrow> text @ page_text @ [CHR 0x0A]
                                          | Inl _ \<Rightarrow> text)
            [] (take (nat (min max_pages (int (length pages)))) pages))"

definition extract_text_from_docx :: "file_system \<Rightarrow> string \<Rightarrow> string" where
  "extract_text_from_docx fs docx_path =
     (case fs_docx fs docx_path of
        Inl _ \<Rightarrow> []
      | Inr paragraphs \<Rightarrow> foldl (\<lambda>text paragraph. text @ paragraph @ [CHR 0x0A]) [] paragraphs)"

definition read_document_text :: "file_system \<Rightarrow> string \<Rightarrow> py_error + string" where
  \<comment> \<open>lines 147-156: the dispatch on the extension; only the plain-text branch can raise\<close>
  "read_document_text fs file_path =
     (if suffix ''.pdf'' (py_lower file_path) then Inr (extract_text_from_pdf fs file_path 100)
      else if suffix ''.docx'' (py_lower file_path) then Inr (extract_text_from_docx fs file_path)
      else fs_text fs file_path)"

fun py_str_nat :: "nat \<Rightarrow> string" where
  \<comment> \<open>\<^verbatim>\<open>str(n)\<close> for a non-negative integer\<close>
  "py_str_nat n =
     (if n < 10 then [char_of (48 + n)] else py_str_nat (n div 10) @ [char_of (48 + n mod 10)])"

definition basename :: "string \<Rightarrow> string" where
  \<comment> \<open>\<^verbatim>\<open>os.path.basename\<close>: what follows the last slash\<close>
  "basename path = rev (takeWhile (\<lambda>c. c \<noteq> CHR ''/'') (rev path))"

definition chunk_key :: "string \<Rightarrow> nat \<Rightarrow> string \<Rightarrow> string" where
  \<comment> \<open>the string that is hashed: \<^verbatim>\<open>f"{file_path}_{actual_index}_{chunk[:100]}"\<close>\<close>
  "chunk_key file_path actual_index chunk =
     file_path @ ''_'' @ py_str_nat actual_index @ ''_'' @ py_slice chunk 0 100"

definition chunk_id :: "(string \<Rightarrow> string) \<Rightarrow> string \<Rightarrow> nat \<Rightarrow> string \<Rightarrow> string" where
  \<comment> \<open>\<^verbatim>\<open>hashlib.md5(key.encode()).hexdigest()\<close>; the hash function is a parameter\<close>
  "chunk_id md5 file_path actual_index chunk = md5 (chunk_key file_path actual_index chunk)"

record stored_record =
  rec_id :: string
  rec_embedding :: embedding
  rec_document :: string
  rec_metadata :: metadata
  \<comment> \<open>the arguments of one \<^verbatim>\<open>collection.add\<close>\<close>

record 'c ingest_env =
  env_fs :: file_system
  env_embed :: embed_service
  env_md5 :: "string \<Rightarrow> string"
  env_add :: "'c \<Rightarrow> stored_record \<Rightarrow> py_error + 'c"
  \<comment> \<open>the external collaborators of ingestion; \<open>'c\<close> is the state of one collection of the
      vector store, and \<open>env_add\<close> its \<^verbatim>\<open>add\<close>: the new state, or the exception raised\<close>

fun process_batch ::
  "'c ingest_env \<Rightarrow> string \<Rightarrow> string \<Rightarrow> nat \<Rightarrow> nat \<Rightarrow> string list \<Rightarrow> 'c \<times> nat \<Rightarrow> 'c \<times> nat" where
  \<comment> \<open>\<^verbatim>\<open>for i, chunk in enumerate(batch_chunks)\<close> on the state \<open>(collection, successful_chunks)\<close>\<close>
  "process_batch env file_path doc_type batch_start i [] st = st"
| "process_batch env file_path doc_type batch_start i (chunk # rest) st =
     (let actual_index = batch_start + i;
          embedding = generate_embeddings (env_embed env) chunk
      in if embedding \<noteq> []
         then (case env_add env (fst st)
                      \<lparr>rec_id = chunk_id (env_md5 env) file_path actual_index chunk,
                       rec_embedding = embedding,
                       rec_document = chunk,
                       rec_metadata = [(''source'', MStr (basename file_path)),
                                       (''chunk_index'', MInt (int actual_index)),
                                       (''document_type'', MStr doc_type),
                                       (''file_path'', MStr file_path)]\<rparr> of
                 Inl _ \<Rightarrow> process_batch env file_path doc_type batch_start (i + 1) rest st
               | Inr c \<Rightarrow>
                   process_batch env file_path doc_type batch_start (i + 1) rest (c, snd st + 1))
         else process_batch env file_path doc_type batch_start (i + 1) rest st)"

function process_batches ::
  "'c ingest_env \<Rightarrow> string \<Rightarrow> string \<Rightarrow> string list \<Rightarrow> nat \<Rightarrow> 'c \<times> nat \<Rightarrow> 'c \<times> nat" where
  \<comment> \<open>\<^verbatim>\<open>for batch_start in range(0, len(chunks), batch_size)\<close> with \<^verbatim>\<open>batch_size = 10\<close>\<close>
  "process_batches env file_path doc_type chunks batch_start st =
     (if batch_start < length chunks
      then (let batch_end = min (batch_start + 10) (length chunks);
                batch_chunks = py_slice chunks (int batch_start) (int batch_end)
            in process_batches env file_path doc_type chunks (batch_start + 10)
                 (process_batch env file_path doc_type batch_start 0 batch_chunks st))
      else st)"
  by pat_completeness auto
termination
  by (relation "measure (\<lambda>(env, file_path, doc_type, chunks, batch_start, st). length chunks - batch_start)")
     auto

declare process_batches.simps [simp del]

definition process_document ::
  "'c ingest_env \<Rightarrow> 'c \<times> 'c \<Rightarrow> string \<Rightarrow> string \<Rightarrow> (bool \<times> 'c \<times> 'c) option" where
  \<comment> \<open>the returned boolean with the two collections \<open>(nec, wattmonk)\<close> after the call;
      \<open>None\<close> when the call never returns\<close>
  "process_document env colls file_path doc_type =
     (case read_document_text (env_fs env) file_path of
        Inl _ \<Rightarrow> Some (False, colls)
      | Inr text \<Rightarrow>
          if py_strip text = [] then Some (False, colls)
          else (case chunk_text text 2000 200 200 of
                  None \<Rightarrow> None
                | Some chunks \<Rightarrow>
                    (let is_nec = (py_lower doc_type = ''nec'');
                         collection = (if is_nec then fst colls else snd colls);
                         st = process_batches env file_path doc_type chunks 0 (collection, 0)
                     in Some (snd st > 0,
                              if is_nec then (fst st, snd colls) else (fst colls, fst st)))))"

subsection \<open>A reference vector store\<close>

text \<open>
  Modelled from the spec: the vector store is an external library, with the operations of
  section 4.4 of the specification: \<open>add\<close> upserts one record by its id, \<open>count\<close>, \<open>query\<close>
  returns the (at most) \<open>k\<close> records nearest to a vector by the store's distance, \<open>get\<close>
  returns every record. The distance function is a parameter.
\<close>

fun store_upsert :: "stored_record list \<Rightarrow> stored_record \<Rightarrow> stored_record list" where
  "store_upsert [] r = [r]"
| "store_upsert (x # xs) r = (if rec_id x = rec_id r then r # xs else x # store_upsert xs r)"

definition store_add :: "stored_record list \<Rightarrow> stored_record \<Rightarrow> py_error + stored_record list" where
  "store_add s r = Inr (store_upsert s r)"

definition store_handle ::
  "(embedding \<Rightarrow> embedding \<Rightarrow> real) \<Rightarrow> stored_record list \<Rightarrow> collection_handle" where
  "store_handle metric s =
     \<lparr>coll_count = Inr (length s),
      coll_query = (\<lambda>v k.
        if k \<le> 0 then Inl ServiceError
        else (let top = take (nat k) (sort_key (\<lambda>r. metric v (rec_embedding r)) s)
              in Inr \<lparr>documents = map rec_document top, metadatas = map rec_metadata top,
                      distances = Some (map (\<lambda>r. metric v (rec_embedding r)) top)\<rparr>)),
      coll_get = Inr \<lparr>documents = map rec_document s, metadatas = map rec_metadata s,
                      distances = None\<rparr>\<rparr>"

section \<open>The specification's descriptions of the searches\<close>

text \<open>
  The definitions of this section follow the words of the specification, not the code; the
  theorems below compare the code with them.
\<close>

definition spec_keywords :: "string \<Rightarrow> string list" where
  \<comment> \<open>the whitespace-separated tokens of the lower-cased query that are longer than 2\<close>
  "spec_keywords query = filter (\<lambda>w. 2 < length w) (py_split (py_lower query))"

definition spec_keyword_hit :: "string \<Rightarrow> string list \<Rightarrow> chroma_result \<Rightarrow> nat \<Rightarrow> search_result" where
  \<comment> \<open>the result for record \<open>i\<close> of a collection: pseudo-distance 1 - matches / keywords\<close>
  "spec_keyword_hit name keywords r i =
     \<lparr>content = documents r ! i,
      metadata = (if metadatas r = [] then [] else metadatas r ! i),
      distance = 1 - real (match_count keywords (py_lower (documents r ! i)))
                     / real (length keywords),
      collection = name,
      keyword_matches = Some (int (match_count keywords (py_lower (documents r ! i))))\<rparr>"

definition spec_keyword_hits ::
  "string list \<Rightarrow> string \<times> collection_handle \<Rightarrow> search_result list" where
  \<comment> \<open>the records of one collection with at least one match, in stored order\<close>
  "spec_keyword_hits keywords nc =
     (case coll_get (snd nc) of
        Inl _ \<Rightarrow> []
      | Inr r \<Rightarrow>
          map (spec_keyword_hit (fst nc) keywords r)
            (filter (\<lambda>i. 0 < match_count keywords (py_lower (documents r ! i)))
               [0..<length (documents r)]))"

definition get_well_formed :: "string \<times> collection_handle \<Rightarrow> bool" where
  \<comment> \<open>the reply of \<open>get\<close>, if any, has no metadata at all or metadata for every document\<close>
  "get_well_formed nc =
     (case coll_get (snd nc) of
        Inl _ \<Rightarrow> True
      | Inr r \<Rightarrow> metadatas r = [] \<or> length (documents r) \<le> length (metadatas r))"

definition spec_semantic_hit :: "string \<Rightarrow> chroma_result \<Rightarrow> nat \<Rightarrow> search_result" where
  \<comment> \<open>hit \<open>i\<close> of a query reply, tagged with its source collection\<close>
  "spec_semantic_hit name r i =
     \<lparr>content = documents r ! i,
      metadata = metadatas r ! i,
      distance = (case distances r of None \<Rightarrow> 0 | Some ds \<Rightarrow> ds ! i),
      collection = name,
      keyword_matches = None\<rparr>"

definition spec_semantic_hits ::
  "embedding \<Rightarrow> int \<Rightarrow> string \<times> collection_handle \<Rightarrow> search_result list" where
  \<comment> \<open>a collection with zero records (or a failing one) gives no hits; another is asked
      for its min(k, size) nearest neighbours\<close>
  "spec_semantic_hits v k nc =
     (case coll_count (snd nc) of
        Inl _ \<Rightarrow> []
      | Inr count \<Rightarrow>
          if count = 0 then []
          else (case coll_query (snd nc) v (min k (int count)) of
                  Inl _ \<Rightarrow> []
                | Inr r \<Rightarrow> map (spec_semantic_hit (fst nc) r) [0..<length (documents r)]))"

definition query_well_formed :: "embedding \<Rightarrow> int \<Rightarrow> string \<times> collection_handle \<Rightarrow> bool" where
  \<comment> \<open>the reply to the query that the search sends, if any, has a metadata entry and (when
      it has distances at all) a distance for every document\<close>
  "query_well_formed v k nc =
     (case coll_count (snd nc) of
        Inl _ \<Rightarrow> True
      | Inr count \<Rightarrow>
          (case coll_query (snd nc) v (min k (int count)) of
             Inl _ \<Rightarrow> True
           | Inr r \<Rightarrow>
               length (documents r) \<le> length (metadatas r)
               \<and> (case distances r of None \<Rightarrow> True
                   | Some ds \<Rightarrow> length (documents r) \<le> length ds)))"

fun spec_first_by_key :: "('a \<Rightarrow> 'k) \<Rightarrow> 'a list \<Rightarrow> 'a list" where
  \<comment> \<open>of the elements with the same key, only the first occurrence is kept\<close>
  "spec_first_by_key key [] = []"
| "spec_first_by_key key (x # xs) = x # spec_first_by_key key (filter (\<lambda>y. key y \<noteq> key x) xs)"

fun spec_ingested_ids :: "'c ingest_env \<Rightarrow> string \<Rightarrow> nat \<Rightarrow> string list \<Rightarrow> string set" where
  \<comment> \<open>the ids of the chunks that embed, the first chunk having sequence index \<open>k\<close>\<close>
  "spec_ingested_ids env file_path k [] = {}"
| "spec_ingested_ids env file_path k (chunk # rest) =
     (if generate_embeddings (env_embed env) chunk \<noteq> []
      then insert (chunk_id (env_md5 env) file_path k chunk)
             (spec_ingested_ids env file_path (k + 1) rest)
      else spec_ingested_ids env file_path (k + 1) rest)"

section \<open>Example inputs\<close>

definition example_store :: "stored_record list" where
  "example_store =
     [\<lparr>rec_id = ''a'', rec_embedding = [1], rec_document = ''Solar panel wiring guide'',
       rec_metadata = [(''source'', MStr ''a.txt'')]\<rparr>,
      \<lparr>rec_id = ''b'', rec_embedding = [2], rec_document = ''Grounding of circuits'',
       rec_metadata = [(''source'', MStr ''b.txt'')]\<rparr>,
      \<lparr>rec_id = ''c'', rec_embedding = [3], rec_document = ''The SOLAR design tool'',
       rec_metadata = [(''source'', MStr ''c.txt'')]\<rparr>]"

definition example_processor :: doc_processor where
  \<comment> \<open>an embedding service that answers \<open>[1]\<close>, the three records above in the first
      collection under the distance \<open>|a - b|\<close> of the first coordinates, the second empty\<close>
  "example_processor =
     \<lparr>embed_content = (\<lambda>m c t. Inr [1]),
      nec_collection = store_handle (\<lambda>a b. \<bar>hd a - hd b\<bar>) example_store,
      wattmonk_collection = store_handle (\<lambda>a b. \<bar>hd a - hd b\<bar>) []\<rparr>"

definition example_env :: "stored_record list ingest_env" where
  \<comment> \<open>a file system with the text files \<open>notes.txt\<close> (the five characters \<open>hello\<close>) and
      \<open>manual.txt\<close> (200 letters), an embedding service that answers \<open>[1]\<close>, the identity as
      hash function, and the reference store\<close>
  "example_env =
     \<lparr>env_fs = \<lparr>fs_pdf = (\<lambda>p. Inl OSError),
                fs_docx = (\<lambda>p. Inl OSError),
                fs_text = (\<lambda>p. if p = ''notes.txt'' then Inr ''hello''
                               else if p = ''manual.txt'' then Inr (replicate 200 (CHR ''a''))
                               else Inl OSError)\<rparr>,
      env_embed = (\<lambda>m c t. Inr [1]),
      env_md5 = (\<lambda>s. s),
      env_add = store_add\<rparr>"

definition document_only_service :: embed_service where
  \<comment> \<open>an embedding service that answers only the task type \<open>retrieval_document\<close>\<close>
  "document_only_service m c t =
     (if t = ''retrieval_document'' then Inr [1] else Inl ServiceError)"

definition query_only_service :: embed_service where
  \<comment> \<open>an embedding service that answers only the task type \<open>retrieval_query\<close>\<close>
  "query_only_service m c t = (if t = ''retrieval_query'' then Inr [1] else Inl ServiceError)"

definition every_task_service :: embed_service where
  "every_task_service m c t = Inr [1]"

section \<open>Facts about the string functions\<close>

lemma length_py_strip: "length (py_strip s) \<le> length s"
proof -
  have "length (dropWhile py_isspace (rev (dropWhile py_isspace s)))
        \<le> length (rev (dropWhile py_isspace s))"
    by (rule length_dropWhile_le)
  also have "\<dots> \<le> length s"
    by (simp add: length_dropWhile_le)
  finally show ?thesis
    by (simp add: py_strip_def)
qed

lemma contains_iff: "contains sub s \<longleftrightarrow> (\<exists>pre post. s = pre @ sub @ post)"
proof (induction s)
  case Nil
  then show ?case by auto
next
  case (Cons c cs)
  show ?case
  proof
    assume "contains sub (c # cs)"
    then consider "prefix sub (c # cs)" | "contains sub cs"
      by auto
    then show "\<exists>pre post. c # cs = pre @ sub @ post"
    proof cases
      case 1
      then obtain post where "c # cs = sub @ post"
        by (auto simp: prefix_def)
      then have "c # cs = [] @ sub @ post"
        by simp
      then show ?thesis
        by blast
    next
      case 2
      with Cons.IH obtain pre post where "cs = pre @ sub @ post"
        by blast
      then have "c # cs = (c # pre) @ sub @ post"
        by simp
      then show ?thesis
        by blast
    qed
  next
    assume "\<exists>pre post. c # cs = pre @ sub @ post"
    then obtain pre post where eq: "c # cs = pre @ sub @ post"
      by blast
    show "contains sub (c # cs)"
    proof (cases pre)
      case Nil
      with eq have "prefix sub (c # cs)"
        by (simp add: prefix_def)
      then show ?thesis
        by simp
    next
      case (Cons p pre')
      with eq have "cs = pre' @ sub @ post"
        by simp
      with Cons.IH have "contains sub cs"
        by blast
      then show ?thesis
        by simp
    qed
  qed
qed

lemma of_char_lower_ge: "py_lower_char c \<noteq> c \<Longrightarrow> 97 \<le> (of_char (py_lower_char c) :: nat)"
  by (auto simp: py_lower_char_def Let_def split: if_splits)

lemma py_isspace_lower [simp]: "py_isspace (py_lower_char c) = py_isspace c"
proof (cases "py_lower_char c = c")
  case True
  then show ?thesis by simp
next
  case False
  then have a: "\<not> py_isspace (py_lower_char c)"
    by (auto simp: py_isspace_def py_lower_char_def Let_def mod_if split: if_splits)
  from False have "\<not> py_isspace c"
    by (auto simp: py_isspace_def py_lower_char_def Let_def split: if_splits)
  with a show ?thesis by simp
qed

lemma py_split_from_lower:
  "py_split_from (py_lower cur) (py_lower s) = map py_lower (py_split_from cur s)"
  by (induction cur s rule: py_split_from.induct) (auto simp: py_lower_def)

lemma py_split_lower: "py_split (py_lower s) = map py_lower (py_split s)"
  using py_split_from_lower [of "[]" s] by (simp add: py_split_def py_lower_def)

lemma py_take_Nil [simp]: "py_take k [] = []"
  by (simp add: py_take_def)

lemma set_py_take: "set (py_take k xs) \<subseteq> set xs"
  by (simp add: py_take_def set_take_subset)

lemma sorted_map_py_take: "sorted (map f xs) \<Longrightarrow> sorted (map f (py_take k xs))"
  by (simp add: py_take_def take_map [symmetric] sorted_wrt_take)

section \<open>The chunking loop\<close>

lemma chunk_loop_stuck:
  assumes "chunk_cond text mc st" and "chunk_body text cs ov st = st"
  shows "chunk_loop text cs ov mc st = None"
proof (rule ccontr)
  assume "chunk_loop text cs ov mc st \<noteq> None"
  then obtain y where y: "chunk_loop text cs ov mc st = Some y"
    by auto
  have "\<not> (text' = text \<and> cs' = cs \<and> ov' = ov \<and> mc' = mc \<and> st' = st)"
    if "chunk_loop text' cs' ov' mc' st' = Some y'" for text' cs' ov' mc' st' y'
    using that
  proof (rule chunk_loop.raw_induct [rotated 1, where P = "\<lambda>t c v m s y. \<not> (t = text \<and> c = cs \<and> v = ov \<and> m = mc \<and> s = st)"])
    fix f t c v m s z
    assume IH: "\<And>t c v m s z. f t c v m s = Some z \<Longrightarrow>
                 \<not> (t = text \<and> c = cs \<and> v = ov \<and> m = mc \<and> s = st)"
      and eq: "(if chunk_cond t m s then f t c v m (chunk_body t c v s) else Some (snd s)) = Some z"
    show "\<not> (t = text \<and> c = cs \<and> v = ov \<and> m = mc \<and> s = st)"
    proof
      assume "t = text \<and> c = cs \<and> v = ov \<and> m = mc \<and> s = st"
      with eq assms have "f text cs ov mc st = Some z"
        by simp
      with IH show False
        by blast
    qed
  qed
  with y show False
    by blast
qed

lemma chunk_body_short_first:
  assumes "text \<noteq> []" and "length text \<le> 100"
  shows "chunk_body text 2000 200 (0, []) = (int (length text) - 200, [])"
  using assms length_py_strip [of "text"]
  by (simp add: chunk_body_def chunk_window_def py_slice_def py_index_def)

lemma chunk_body_short_stuck:
  assumes "text \<noteq> []" and "length text \<le> 100"
  shows "chunk_body text 2000 200 (int (length text) - 200, []) = (int (length text) - 200, [])"
  using assms length_py_strip [of "text"]
  by (simp add: chunk_body_def chunk_window_def py_slice_def py_index_def)

lemma chunk_text_short_diverges:
  assumes "text \<noteq> []" and "length text \<le> 100" and "0 < max_chunks"
  shows "chunk_text text 2000 200 max_chunks = None"
proof -
  have c0: "chunk_cond text max_chunks (0, [])"
    using assms by (simp add: chunk_cond_def)
  have c1: "chunk_cond text max_chunks (int (length text) - 200, [])"
    using assms by (simp add: chunk_cond_def)
  have "chunk_loop text 2000 200 max_chunks (0, [])
        = chunk_loop text 2000 200 max_chunks (int (length text) - 200, [])"
    using c0 chunk_body_short_first [OF assms(1,2)]
    by (subst chunk_loop.simps) simp
  also have "\<dots> = None"
    using c1 chunk_body_short_stuck [OF assms(1,2)] by (rule chunk_loop_stuck)
  finally show ?thesis
    using assms by (simp add: chunk_text_def)
qed

text \<open>
  C1 (the cursor of \<open>chunk_text\<close> strictly advances in every iteration, so the loop ends
  for every input). The code does not do this. On the five-character text \<open>hello\<close> with the
  default chunk size 2000 and overlap 200, the first iteration moves the cursor from 0 back
  to -195, the loop condition still holds there, and every later iteration leaves the state
  \<open>(-195, [])\<close> as it is: the call never returns. With overlap equal to the chunk size
  (5 and 5, on a text of ten letters) the state \<open>(0, [])\<close> repeats at once; no guard
  intervenes.
\<close>

theorem chunk_text_cursor_stuck:
  "fst (chunk_body ''hello'' 2000 200 (0, [])) = - 195
   \<and> chunk_cond ''hello'' 500 (- 195, [])
   \<and> chunk_body ''hello'' 2000 200 (- 195, []) = (- 195, [])
   \<and> chunk_text ''hello'' 2000 200 500 = None
   \<and> chunk_cond ''aaaaaaaaaa'' 500 (0, [])
   \<and> chunk_body ''aaaaaaaaaa'' 5 5 (0, []) = (0, [])
   \<and> chunk_text ''aaaaaaaaaa'' 5 5 500 = None"
proof -
  have a: "fst (chunk_body ''hello'' 2000 200 (0, [])) = - 195"
    by (simp add: chunk_body_short_first)
  have b: "chunk_cond ''hello'' 500 (- 195, [])"
    by (simp add: chunk_cond_def)
  have c: "chunk_body ''hello'' 2000 200 (- 195, []) = (- 195, [])"
    using chunk_body_short_stuck [of "''hello''"] by simp
  have d: "chunk_text ''hello'' 2000 200 500 = None"
    by (rule chunk_text_short_diverges) simp_all
  have e: "chunk_cond ''aaaaaaaaaa'' 500 (0, [])"
    by (simp add: chunk_cond_def)
  have f: "chunk_body ''aaaaaaaaaa'' 5 5 (0, []) = (0, [])"
    by (simp add: chunk_body_def chunk_window_def py_slice_def py_index_def py_strip_def)
  have g: "chunk_text ''aaaaaaaaaa'' 5 5 500 = None"
    using chunk_loop_stuck [OF e f] by (simp add: chunk_text_def)
  from a b c d e f g show ?thesis
    by blast
qed

section \<open>Intent classification\<close>

lemma nec_score_nonneg: "0 \<le> nec_score q"
  by (simp add: nec_score_def)

lemma wattmonk_score_nonneg: "0 \<le> wattmonk_score q"
  by (simp add: wattmonk_score_def)

lemma nec_score_card:
  "nec_score q = int (card {k \<in> set nec_keywords. contains k (py_lower q)})"
proof -
  have "distinct nec_keywords"
    by (simp add: nec_keywords_def)
  then show ?thesis
    unfolding nec_score_def by (metis distinct_filter distinct_card set_filter)
qed

lemma wattmonk_score_card:
  "wattmonk_score q = int (card {k \<in> set wattmonk_keywords. contains k (py_lower q)})"
proof -
  have "distinct wattmonk_keywords"
    by (simp add: wattmonk_keywords_def)
  then show ?thesis
    unfolding wattmonk_score_def by (metis distinct_filter distinct_card set_filter)
qed

lemma classify_intent_cases:
  "classify_intent q =
     (if nec_score q > wattmonk_score q
      then \<lparr>intent = ''nec'', confidence = nec_score q, document_type = Some ''nec''\<rparr>
      else if wattmonk_score q > nec_score q
      then \<lparr>intent = ''wattmonk'', confidence = wattmonk_score q,
            document_type = Some ''wattmonk''\<rparr>
      else if contains ''nec'' (py_lower q) \<or> contains ''electrical'' (py_lower q)
      then \<lparr>intent = ''nec'', confidence = 1, document_type = Some ''nec''\<rparr>
      else if contains ''wattmonk'' (py_lower q) \<or> contains ''company'' (py_lower q)
      then \<lparr>intent = ''wattmonk'', confidence = 1, document_type = Some ''wattmonk''\<rparr>
      else \<lparr>intent = ''general'', confidence = 0, document_type = None\<rparr>)"
  using nec_score_nonneg [of q] wattmonk_score_nonneg [of q]
  by (simp add: classify_intent_def Let_def)

lemma common_substring_of_anchor_queries:
  "contains a ''electrical'' \<Longrightarrow> contains a ''nec tool'' \<Longrightarrow> contains a ''select''"
  by (auto simp: prefix_Cons)

text \<open>
  C8 as stated (on a tie the fallback looks for two anchor terms, one per corpus) fails:
  no single pair of anchor terms describes the fallback. The queries \<open>electrical\<close> (both
  counts 0) and \<open>nec tool\<close> (both counts 1) are tied and classified as the electrical-code
  corpus with confidence 1, so one anchor would have to occur in both; every string that
  does also occurs in \<open>select\<close>, which is tied and classified as general.
\<close>

theorem classify_intent_single_anchor_counterexample:
  "\<not> (\<exists>a b. \<forall>q. nec_score q = wattmonk_score q \<longrightarrow>
        classify_intent q =
          (if contains a (py_lower q)
           then \<lparr>intent = ''nec'', confidence = 1, document_type = Some ''nec''\<rparr>
           else if contains b (py_lower q)
           then \<lparr>intent = ''wattmonk'', confidence = 1, document_type = Some ''wattmonk''\<rparr>
           else \<lparr>intent = ''general'', confidence = 0, document_type = None\<rparr>))"
proof
  assume "\<exists>a b. \<forall>q. nec_score q = wattmonk_score q \<longrightarrow>
        classify_intent q =
          (if contains a (py_lower q)
           then \<lparr>intent = ''nec'', confidence = 1, document_type = Some ''nec''\<rparr>
           else if contains b (py_lower q)
           then \<lparr>intent = ''wattmonk'', confidence = 1, document_type = Some ''wattmonk''\<rparr>
           else \<lparr>intent = ''general'', confidence = 0, document_type = None\<rparr>)"
  then obtain a b where ab: "\<And>q. nec_score q = wattmonk_score q \<Longrightarrow>
        classify_intent q =
          (if contains a (py_lower q)
           then \<lparr>intent = ''nec'', confidence = 1, document_type = Some ''nec''\<rparr>
           else if contains b (py_lower q)
           then \<lparr>intent = ''wattmonk'', confidence = 1, document_type = Some ''wattmonk''\<rparr>
           else \<lparr>intent = ''general'', confidence = 0, document_type = None\<rparr>)"
    by blast
  have l1: "py_lower ''electrical'' = ''electrical''"
    by code_simp
  have l2: "py_lower ''nec tool'' = ''nec tool''"
    by code_simp
  have l3: "py_lower ''select'' = ''select''"
    by code_simp
  have t1: "nec_score ''electrical'' = wattmonk_score ''electrical''"
    by code_simp
  have t2: "nec_score ''nec tool'' = wattmonk_score ''nec tool''"
    by code_simp
  have t3: "nec_score ''select'' = wattmonk_score ''select''"
    by code_simp
  have c1: "classify_intent ''electrical''
            = \<lparr>intent = ''nec'', confidence = 1, document_type = Some ''nec''\<rparr>"
    by code_simp
  have c2: "classify_intent ''nec tool''
            = \<lparr>intent = ''nec'', confidence = 1, document_type = Some ''nec''\<rparr>"
    by code_simp
  have c3: "classify_intent ''select''
            = \<lparr>intent = ''general'', confidence = 0, document_type = None\<rparr>"
    by code_simp
  have a1: "contains a ''electrical''"
    using ab [OF t1] c1 l1 by (auto split: if_splits)
  have a2: "contains a ''nec tool''"
    using ab [OF t2] c2 l2 by (auto split: if_splits)
  have a3: "\<not> contains a ''select''"
    using ab [OF t3] c3 l3 by (auto split: if_splits)
  from a1 a2 a3 common_substring_of_anchor_queries show False
    by blast
qed

text \<open>
  C8 as amended: \<open>classify_intent\<close> counts the vocabulary entries that occur in the
  lower-cased query (\<open>nec_score_card\<close>, \<open>wattmonk_score_card\<close>, \<open>contains_iff\<close>); the
  vocabulary with the strictly higher count wins with that count as confidence; on a tie
  (both zero included) the query is searched for the anchors \<open>nec\<close> or \<open>electrical\<close>, which
  force the electrical-code corpus with confidence 1, and then for \<open>wattmonk\<close> or \<open>company\<close>,
  which force the company corpus with confidence 1; otherwise the intent is general with
  confidence 0 and no corpus filter. The three example queries of the specification
  classify as it says.
\<close>

theorem classify_intent_spec:
  "classify_intent q =
     (if nec_score q > wattmonk_score q
      then \<lparr>intent = ''nec'', confidence = nec_score q, document_type = Some ''nec''\<rparr>
      else if wattmonk_score q > nec_score q
      then \<lparr>intent = ''wattmonk'', confidence = wattmonk_score q,
            document_type = Some ''wattmonk''\<rparr>
      else if contains ''nec'' (py_lower q) \<or> contains ''electrical'' (py_lower q)
      then \<lparr>intent = ''nec'', confidence = 1, document_type = Some ''nec''\<rparr>
      else if contains ''wattmonk'' (py_lower q) \<or> contains ''company'' (py_lower q)
      then \<lparr>intent = ''wattmonk'', confidence = 1, document_type = Some ''wattmonk''\<rparr>
      else \<lparr>intent = ''general'', confidence = 0, document_type = None\<rparr>)
   \<and> classify_intent ''What is the grounding requirement for circuits?''
       = \<lparr>intent = ''nec'', confidence = 2, document_type = Some ''nec''\<rparr>
   \<and> classify_intent ''What does Wattmonk's platform do?''
       = \<lparr>intent = ''wattmonk'', confidence = 2, document_type = Some ''wattmonk''\<rparr>
   \<and> classify_intent ''What's the weather today?''
       = \<lparr>intent = ''general'', confidence = 0, document_type = None\<rparr>"
proof -
  have e1: "classify_intent ''What is the grounding requirement for circuits?''
            = \<lparr>intent = ''nec'', confidence = 2, document_type = Some ''nec''\<rparr>"
    by code_simp
  have e2: "classify_intent ''What does Wattmonk's platform do?''
            = \<lparr>intent = ''wattmonk'', confidence = 2, document_type = Some ''wattmonk''\<rparr>"
    by code_simp
  have e3: "classify_intent ''What's the weather today?''
            = \<lparr>intent = ''general'', confidence = 0, document_type = None\<rparr>"
    by code_simp
  from classify_intent_cases [of q] e1 e2 e3 show ?thesis
    by (intro conjI)
qed

section \<open>Chunk boundaries\<close>

lemma rfind_ge: "- 1 \<le> rfind xs c"
  by (induction xs) (auto simp: Let_def)

lemma rfind_lt_length: "rfind xs c < int (length xs)"
  by (induction xs) (auto simp: Let_def)

lemma rfind_nth: "0 \<le> rfind xs c \<Longrightarrow> xs ! nat (rfind xs c) = c"
proof (induction xs)
  case Nil
  then show ?case by simp
next
  case (Cons x xs)
  show ?case
  proof (cases "0 \<le> rfind xs c")
    case True
    then have "nat (rfind xs c + 1) = Suc (nat (rfind xs c))"
      by simp
    with True Cons.IH show ?thesis
      by (simp add: Let_def)
  next
    case False
    with Cons.prems show ?thesis
      by (auto simp: Let_def split: if_splits)
  qed
qed

lemma rfind_last: "rfind xs c < int j \<Longrightarrow> j < length xs \<Longrightarrow> xs ! j \<noteq> c"
proof (induction xs arbitrary: j)
  case Nil
  then show ?case by simp
next
  case (Cons x xs)
  show ?case
  proof (cases j)
    case 0
    with Cons.prems show ?thesis
      by (auto simp: Let_def split: if_splits)
  next
    case (Suc j')
    with Cons.prems have "rfind xs c < int j'" and "j' < length xs"
      using rfind_ge [of xs c] by (auto simp: Let_def split: if_splits)
    with Cons.IH Suc show ?thesis
      by simp
  qed
qed

lemma rfind_leI:
  assumes "\<And>j. b < j \<Longrightarrow> j < length xs \<Longrightarrow> xs ! j \<noteq> c"
  shows "rfind xs c \<le> int b"
proof (rule ccontr)
  assume "\<not> rfind xs c \<le> int b"
  then have gt: "int b < rfind xs c"
    by simp
  then have "b < nat (rfind xs c)" and "nat (rfind xs c) < length xs"
    using rfind_lt_length [of xs c] by auto
  with assms have "xs ! nat (rfind xs c) \<noteq> c"
    by blast
  moreover from gt have "xs ! nat (rfind xs c) = c"
    by (intro rfind_nth) simp
  ultimately show False
    by simp
qed

lemma rfind_eqI:
  assumes "b < length xs" and "xs ! b = c"
    and "\<And>j. b < j \<Longrightarrow> j < length xs \<Longrightarrow> xs ! j \<noteq> c"
  shows "rfind xs c = int b"
proof -
  have "rfind xs c \<le> int b"
    using assms(3) by (rule rfind_leI)
  moreover have "\<not> rfind xs c < int b"
    using rfind_last [of xs c b] assms(1,2) by blast
  ultimately show ?thesis
    by simp
qed

lemma chunk_window_snap:
  assumes edge: "0 < chunk_size" "chunk_size < int (length text)"
    and b: "chunk_size div 2 < int b" "int b < chunk_size"
    and brk: "text ! b = CHR ''.'' \<or> text ! b = CHR 0x0A"
    and last: "\<And>j. b < j \<Longrightarrow> int j < chunk_size \<Longrightarrow> text ! j \<noteq> CHR ''.'' \<and> text ! j \<noteq> CHR 0x0A"
  shows "chunk_window text chunk_size 0 = (take (b + 1) text, int b + 1)"
proof -
  define w where "w = take (nat chunk_size) text"
  have lw: "length w = nat chunk_size"
    using edge by (simp add: w_def)
  have bw: "b < length w"
    using b lw by simp
  have nth_w: "w ! j = text ! j" if "j < length w" for j
    using that by (simp add: w_def)
  have p_le: "rfind w (CHR ''.'') \<le> int b"
    using last nth_w lw by (intro rfind_leI) auto
  have n_le: "rfind w (CHR 0x0A) \<le> int b"
    using last nth_w lw by (intro rfind_leI) auto
  have "rfind w (CHR ''.'') = int b \<or> rfind w (CHR 0x0A) = int b"
  proof (rule disjE [OF brk])
    assume "text ! b = CHR ''.''"
    then have "rfind w (CHR ''.'') = int b"
      using last nth_w lw bw by (intro rfind_eqI) auto
    then show ?thesis ..
  next
    assume "text ! b = CHR 0x0A"
    then have "rfind w (CHR 0x0A) = int b"
      using last nth_w lw bw by (intro rfind_eqI) auto
    then show ?thesis ..
  qed
  with p_le n_le have mx: "max (rfind w (CHR ''.'')) (rfind w (CHR 0x0A)) = int b"
    by auto
  have sl: "py_slice text 0 chunk_size = w"
    using edge by (simp add: py_slice_def py_index_def w_def)
  have sl2: "py_slice text 0 (int b + 1) = take (b + 1) text"
    using edge b by (simp add: py_slice_def py_index_def nat_add_distrib)
  show ?thesis
    using edge b mx sl sl2 by (simp add: chunk_window_def Let_def)
qed

lemma chunk_window_far_cursor:
  assumes "0 \<le> start" and "0 < chunk_size" and "chunk_size \<le> start + chunk_size div 2 + 1"
  shows "chunk_window text chunk_size start
         = (py_slice text start (min (start + chunk_size) (int (length text))),
            min (start + chunk_size) (int (length text)))"
proof -
  define e where "e = min (start + chunk_size) (int (length text))"
  define w where "w = py_slice text start e"
  have "length w \<le> nat chunk_size"
    using assms by (auto simp: w_def e_def py_slice_def py_index_def Let_def min_def)
  then have lt: "rfind w c < chunk_size" for c
    using rfind_lt_length [of w c] assms by linarith
  have "\<not> max (rfind w (CHR ''.'')) (rfind w (CHR 0x0A)) > start + chunk_size div 2"
    using assms lt [of "CHR ''.''"] lt [of "CHR 0x0A"] by linarith
  then show ?thesis
    unfolding chunk_window_def Let_def e_def [symmetric] w_def [symmetric]
    by (auto simp: e_def w_def min_def)
qed

text \<open>
  C4 as stated (a break point at least half the chunk size into the window snaps the chunk
  end) fails at exactly half: with chunk size 4 the window \<open>ab.d\<close> of \<open>ab.defgh\<close> ends before
  the end of the text and has its period at index 2, half the chunk size, yet the chunk
  ends at 4 and not just after the period. The test in the code is strict.
\<close>

theorem chunk_window_half_counterexample:
  "(0::int) + 4 < int (length ''ab.defgh'')
   \<and> ''ab.defgh'' ! 2 = CHR ''.''
   \<and> (4::int) div 2 \<le> 2
   \<and> chunk_window ''ab.defgh'' 4 0 = (''ab.d'', 4)"
  by (simp add: chunk_window_def py_slice_def py_index_def)

lemma nth_in_py_slice:
  assumes "b < j" and "int j < e" and "e \<le> int (length xs)"
  shows "xs ! j \<in> set (py_slice xs (int b + 1) e)"
proof -
  have sl: "py_slice xs (int b + 1) e = take (nat e - (b + 1)) (drop (b + 1) xs)"
    using assms by (simp add: py_slice_def py_index_def Let_def nat_add_distrib nat_diff_distrib)
  have "j - (b + 1) < length (take (nat e - (b + 1)) (drop (b + 1) xs))"
    using assms by auto
  moreover have "take (nat e - (b + 1)) (drop (b + 1) xs) ! (j - (b + 1)) = xs ! j"
    using assms by auto
  ultimately show ?thesis
    unfolding sl by (metis nth_mem)
qed

text \<open>
  C4 as amended, for the first window (cursor 0) of a text longer than the chunk size: if the
  last period or newline of the window is at index \<open>b\<close>, strictly more than half the chunk
  size (rounded down) into the window, then the chunk is the text up to and including
  index \<open>b\<close>, the position \<open>end\<close> is \<open>b + 1\<close>, and the next cursor is \<open>b + 1 - overlap\<close>. A period
  at position \<open>chunk_size - 10\<close> is the case \<open>b = chunk_size - 10\<close>, which needs a chunk size
  of at least 21 and no later period or newline in the window. For later windows see
  \<open>chunk_window_far_cursor\<close>: the index into the window is compared with a position in the
  text, so a cursor of about half the chunk size or more never snaps.
\<close>

theorem chunk_window_snaps_first_window:
  assumes "0 < chunk_size" and "chunk_size < int (length text)"
    and "chunk_size div 2 < int b" and "int b < chunk_size"
    and "text ! b = CHR ''.'' \<or> text ! b = CHR 0x0A"
    and "CHR ''.'' \<notin> set (py_slice text (int b + 1) chunk_size)"
    and "CHR 0x0A \<notin> set (py_slice text (int b + 1) chunk_size)"
  shows "chunk_window text chunk_size 0 = (take (b + 1) text, int b + 1)
         \<and> chunk_body text chunk_size overlap (0, chunks)
           = (int b + 1 - overlap,
              if 100 < length (py_strip (take (b + 1) text))
              then chunks @ [py_strip (take (b + 1) text)] else chunks)"
proof -
  have last: "text ! j \<noteq> CHR ''.'' \<and> text ! j \<noteq> CHR 0x0A" if "b < j" and "int j < chunk_size" for j
  proof -
    have "text ! j \<in> set (py_slice text (int b + 1) chunk_size)"
      using that assms(2) by (intro nth_in_py_slice) auto
    with assms(6,7) show ?thesis
      by metis
  qed
  have w: "chunk_window text chunk_size 0 = (take (b + 1) text, int b + 1)"
    using assms(1-5) last by (rule chunk_window_snap)
  then show ?thesis
    by (simp add: chunk_body_def)
qed

theorem chunk_window_snaps_first_window_witness:
  "(0::int) < 30
   \<and> (30::int) < int (length ''aaaaaaaaaaaaaaaaaaaa.aaaaaaaaaaaaaaaaaaa'')
   \<and> (30::int) div 2 < int 20 \<and> int 20 < (30::int)
   \<and> ''aaaaaaaaaaaaaaaaaaaa.aaaaaaaaaaaaaaaaaaa'' ! 20 = CHR ''.''
   \<and> CHR ''.'' \<notin> set (py_slice ''aaaaaaaaaaaaaaaaaaaa.aaaaaaaaaaaaaaaaaaa'' (int 20 + 1) 30)
   \<and> CHR 0x0A \<notin> set (py_slice ''aaaaaaaaaaaaaaaaaaaa.aaaaaaaaaaaaaaaaaaa'' (int 20 + 1) 30)
   \<and> chunk_window ''aaaaaaaaaaaaaaaaaaaa.aaaaaaaaaaaaaaaaaaa'' 30 0
       = (''aaaaaaaaaaaaaaaaaaaa.'', 21)
   \<and> chunk_body ''aaaaaaaaaaaaaaaaaaaa.aaaaaaaaaaaaaaaaaaa'' 30 5 (0, []) = (16, [])"
proof -
  let ?t = "''aaaaaaaaaaaaaaaaaaaa.aaaaaaaaaaaaaaaaaaa''"
  have h1: "(0::int) < 30" by simp
  have h2: "(30::int) < int (length ?t)" by simp
  have h3: "(30::int) div 2 < int 20" by simp
  have h4: "int 20 < (30::int)" by simp
  have h5: "?t ! 20 = CHR ''.'' \<or> ?t ! 20 = CHR 0x0A" by simp
  have h6: "CHR ''.'' \<notin> set (py_slice ?t (int 20 + 1) 30)"
    by (simp add: py_slice_def py_index_def)
  have h7: "CHR 0x0A \<notin> set (py_slice ?t (int 20 + 1) 30)"
    by (simp add: py_slice_def py_index_def)
  have th: "chunk_window ?t 30 0 = (take (20 + 1) ?t, int 20 + 1)
         \<and> chunk_body ?t 30 5 (0, [])
           = (int 20 + 1 - 5,
              if 100 < length (py_strip (take (20 + 1) ?t))
              then [] @ [py_strip (take (20 + 1) ?t)] else [])"
    by (rule chunk_window_snaps_first_window [OF h1 h2 h3 h4 h5 h6 h7])
  have s: "\<not> 100 < length (py_strip (take (20 + 1) ?t))"
    using length_py_strip [of "take (20 + 1) ?t"] by simp
  from th s h1 h2 h3 h4 h6 h7 show ?thesis
    by simp
qed

section \<open>Keyword search\<close>

lemma collect_keywords_filter:
  "collect_keywords ws kws = kws @ filter (\<lambda>w. 2 < length w) ws"
  by (induction ws arbitrary: kws) auto

lemma keywords_eq_spec: "collect_keywords (py_split (py_lower query)) [] = spec_keywords query"
  by (simp add: collect_keywords_filter spec_keywords_def)

lemma spec_keywords_short:
  assumes "list_all (\<lambda>w. length w \<le> 2) (py_split query)"
  shows "spec_keywords query = []"
proof -
  have "filter (\<lambda>w. 2 < length w) (map py_lower (py_split query)) = []"
    using assms by (induction "py_split query") (auto simp: py_lower_def list_all_iff filter_empty_conv)
  then show ?thesis
    by (simp add: spec_keywords_def py_split_lower)
qed

lemma match_count_Nil [simp]: "match_count [] d = 0"
  by (simp add: match_count_def)

lemma match_count_le: "match_count keywords d \<le> length keywords"
  by (simp add: match_count_def)

lemma scan_docs_no_keywords: "scan_docs name [] r idxs results = (results, None)"
  by (induction idxs arbitrary: results) (simp_all add: Let_def)

lemma keyword_collection_no_keywords: "keyword_collection [] results nc = results"
  by (simp add: keyword_collection_def scan_docs_no_keywords split: sum.splits)

lemma foldl_keyword_collection_no_keywords:
  "foldl (keyword_collection []) results ncs = results"
  by (induction ncs arbitrary: results) (simp_all add: keyword_collection_no_keywords)

text \<open>
  C10: when no whitespace-separated token of the query is longer than 2 characters, the
  keyword list is empty, the scan of any reply of any collection adds nothing and ends
  without an exception (the division is not reached), and \<open>keyword_search\<close> returns the
  empty list, whatever the collections hold or answer and whatever the result count.
\<close>

theorem keyword_search_short_tokens:
  assumes "list_all (\<lambda>w. length w \<le> 2) (py_split query)"
  shows "collect_keywords (py_split (py_lower query)) [] = []
         \<and> scan_docs name (collect_keywords (py_split (py_lower query)) []) r idxs results
           = (results, None)
         \<and> keyword_search dp query doc_type n_results = []"
proof -
  have k: "collect_keywords (py_split (py_lower query)) [] = []"
    using assms by (simp add: keywords_eq_spec spec_keywords_short)
  then show ?thesis
    by (simp add: keyword_search_def Let_def scan_docs_no_keywords
        foldl_keyword_collection_no_keywords)
qed


theorem keyword_search_short_tokens_witness:
  "list_all (\<lambda>w. length w \<le> 2) (py_split ''Is it OK'')
   \<and> collect_keywords (py_split (py_lower ''Is it OK'')) [] = []
   \<and> scan_docs ''nec'' (collect_keywords (py_split (py_lower ''Is it OK'')) [])
        \<lparr>documents = [''Is it OK''], metadatas = [], distances = None\<rparr> [0] []
      = ([], None)
   \<and> keyword_search example_processor ''Is it OK'' None 3 = []"
proof -
  have h: "list_all (\<lambda>w. length w \<le> 2) (py_split ''Is it OK'')"
    by code_simp
  from h keyword_search_short_tokens [OF h] show ?thesis
    by (intro conjI) blast+
qed

lemma scan_docs_spec:
  assumes "metadatas r = [] \<or> (\<forall>i\<in>set idxs. i < length (metadatas r))"
  shows "scan_docs name kws r idxs results
         = (results @ map (spec_keyword_hit name kws r)
                        (filter (\<lambda>i. 0 < match_count kws (py_lower (documents r ! i))) idxs),
            None)"
  using assms
proof (induction idxs arbitrary: results)
  case Nil
  then show ?case by simp
next
  case (Cons i rest)
  let ?m = "match_count kws (py_lower (documents r ! i))"
  have rest: "metadatas r = [] \<or> (\<forall>i\<in>set rest. i < length (metadatas r))"
    using Cons.prems by auto
  show ?case
  proof (cases "0 < ?m")
    case False
    with Cons.IH [OF rest] show ?thesis
      by (simp add: Let_def)
  next
    case True
    then have "length kws \<noteq> 0"
      using match_count_le [of kws "py_lower (documents r ! i)"] by linarith
    then have q: "py_truediv (int ?m) (int (length kws)) = Inr (real ?m / real (length kws))"
      by (simp add: py_truediv_def)
    from Cons.prems have md: "metadatas r \<noteq> [] \<Longrightarrow> i < length (metadatas r)"
      by auto
    show ?thesis
      using True q md Cons.IH [OF rest]
      by (cases "metadatas r = []") (simp_all add: Let_def spec_keyword_hit_def)
  qed
qed

lemma keyword_collection_spec:
  assumes "get_well_formed nc"
  shows "keyword_collection kws results nc = results @ spec_keyword_hits kws nc"
proof (cases "coll_get (snd nc)")
  case (Inl e)
  then show ?thesis
    by (simp add: keyword_collection_def spec_keyword_hits_def)
next
  case (Inr r)
  with assms have "metadatas r = [] \<or> (\<forall>i\<in>set [0..<length (documents r)]. i < length (metadatas r))"
    by (auto simp: get_well_formed_def)
  then have "scan_docs (fst nc) kws r [0..<length (documents r)] results
         = (results @ map (spec_keyword_hit (fst nc) kws r)
                        (filter (\<lambda>i. 0 < match_count kws (py_lower (documents r ! i)))
                           [0..<length (documents r)]),
            None)"
    by (rule scan_docs_spec)
  with Inr show ?thesis
    by (simp add: keyword_collection_def spec_keyword_hits_def)
qed

lemma foldl_keyword_collection_spec:
  assumes "list_all get_well_formed ncs"
  shows "foldl (keyword_collection kws) results ncs
         = results @ concat (map (spec_keyword_hits kws) ncs)"
  using assms
  by (induction ncs arbitrary: results) (simp_all add: keyword_collection_spec)

lemma spec_keyword_hits_props:
  assumes "h \<in> set (spec_keyword_hits kws nc)"
  shows "\<exists>m. 0 < m \<and> keyword_matches h = Some (int m)
             \<and> m = match_count kws (py_lower (content h))
             \<and> distance h = 1 - real m / real (length kws)
             \<and> collection h = fst nc"
  using assms
  by (auto simp: spec_keyword_hits_def spec_keyword_hit_def split: sum.splits)

text \<open>
  C6: the keywords are the whitespace-separated tokens of the lower-cased query longer than
  2 characters; when every reply of \<open>get\<close> is well formed, the result of \<open>keyword_search\<close>
  is the first \<open>k\<close> of the hits of the selected collections, sorted by descending match
  count and then ascending pseudo-distance, where the hits of a collection are its records
  with at least one keyword occurring in the lower-cased text; every result carries its
  match count \<open>m > 0\<close> and the pseudo-distance \<open>1 - m / (number of keywords)\<close>, which is 0
  when every keyword occurs.
\<close>

theorem keyword_search_spec:
  assumes "list_all get_well_formed (select_collections dp doc_type)"
  shows "collect_keywords (py_split (py_lower query)) [] = spec_keywords query
     \<and> keyword_search dp query doc_type k
       = py_take k (sort_key keyword_sort_key
           (concat (map (spec_keyword_hits (spec_keywords query))
                      (select_collections dp doc_type))))
     \<and> sorted_wrt
         (\<lambda>x y. the (keyword_matches y) < the (keyword_matches x)
                 \<or> the (keyword_matches y) = the (keyword_matches x) \<and> distance x \<le> distance y)
         (keyword_search dp query doc_type k)
     \<and> list_all
         (\<lambda>h. \<exists>m. 0 < m \<and> keyword_matches h = Some (int m)
                   \<and> m = match_count (spec_keywords query) (py_lower (content h))
                   \<and> distance h = 1 - real m / real (length (spec_keywords query))
                   \<and> (m = length (spec_keywords query) \<longrightarrow> distance h = 0))
         (keyword_search dp query doc_type k)"
proof -
  let ?kws = "spec_keywords query"
  let ?hits = "concat (map (spec_keyword_hits ?kws) (select_collections dp doc_type))"
  have kw: "collect_keywords (py_split (py_lower query)) [] = ?kws"
    by (rule keywords_eq_spec)
  have eq: "keyword_search dp query doc_type k = py_take k (sort_key keyword_sort_key ?hits)"
    using foldl_keyword_collection_spec [OF assms, of ?kws "[]"]
    by (simp add: keyword_search_def kw Let_def)
  have hit: "\<exists>m. 0 < m \<and> keyword_matches h = Some (int m)
                   \<and> m = match_count ?kws (py_lower (content h))
                   \<and> distance h = 1 - real m / real (length ?kws)
                   \<and> (m = length ?kws \<longrightarrow> distance h = 0)"
    if "h \<in> set (keyword_search dp query doc_type k)" for h
  proof -
    from that have "h \<in> set ?hits"
      using set_py_take [of k "sort_key keyword_sort_key ?hits"] by (auto simp: eq)
    then obtain nc where "h \<in> set (spec_keyword_hits ?kws nc)"
      by auto
    from spec_keyword_hits_props [OF this] obtain m where m: "0 < m"
      "keyword_matches h = Some (int m)" "m = match_count ?kws (py_lower (content h))"
      "distance h = 1 - real m / real (length ?kws)"
      by blast
    then have "m = length ?kws \<longrightarrow> distance h = 0"
      by auto
    with m show ?thesis
      by blast
  qed
  have "sorted (map keyword_sort_key (keyword_search dp query doc_type k))"
    unfolding eq by (rule sorted_map_py_take) (rule sorted_sort_key)
  then have "sorted_wrt (\<lambda>x y. keyword_sort_key x \<le> keyword_sort_key y)
               (keyword_search dp query doc_type k)"
    by (simp add: sorted_wrt_map)
  then have srt: "sorted_wrt
         (\<lambda>x y. the (keyword_matches y) < the (keyword_matches x)
                 \<or> the (keyword_matches y) = the (keyword_matches x) \<and> distance x \<le> distance y)
         (keyword_search dp query doc_type k)"
  proof (rule sorted_wrt_mono_rel [rotated])
    fix x y
    assume x: "x \<in> set (keyword_search dp query doc_type k)"
      and y: "y \<in> set (keyword_search dp query doc_type k)"
      and le: "keyword_sort_key x \<le> keyword_sort_key y"
    from hit [OF x] hit [OF y] le
    show "the (keyword_matches y) < the (keyword_matches x)
          \<or> the (keyword_matches y) = the (keyword_matches x) \<and> distance x \<le> distance y"
      by (auto simp: keyword_sort_key_def)
  qed
  have la: "list_all
         (\<lambda>h. \<exists>m. 0 < m \<and> keyword_matches h = Some (int m)
                   \<and> m = match_count ?kws (py_lower (content h))
                   \<and> distance h = 1 - real m / real (length ?kws)
                   \<and> (m = length ?kws \<longrightarrow> distance h = 0))
         (keyword_search dp query doc_type k)"
    unfolding list_all_iff using hit by blast
  from kw eq srt la show ?thesis
    by (intro conjI)
qed

theorem keyword_search_spec_witness:
  "list_all get_well_formed (select_collections example_processor None)
   \<and> spec_keywords ''Solar wiring of PANEL'' = [''solar'', ''wiring'', ''panel'']
   \<and> keyword_search example_processor ''Solar wiring of PANEL'' None 3
     = [\<lparr>content = ''Solar panel wiring guide'', metadata = [(''source'', MStr ''a.txt'')],
         distance = 0, collection = ''nec'', keyword_matches = Some 3\<rparr>,
        \<lparr>content = ''The SOLAR design tool'', metadata = [(''source'', MStr ''c.txt'')],
         distance = 2 / 3, collection = ''nec'', keyword_matches = Some 1\<rparr>]"
proof -
  have h: "list_all get_well_formed (select_collections example_processor None)"
    by code_simp
  have k: "spec_keywords ''Solar wiring of PANEL'' = [''solar'', ''wiring'', ''panel'']"
    by code_simp
  have e: "py_take 3 (sort_key keyword_sort_key
             (concat (map (spec_keyword_hits (spec_keywords ''Solar wiring of PANEL''))
                        (select_collections example_processor None))))
     = [\<lparr>content = ''Solar panel wiring guide'', metadata = [(''source'', MStr ''a.txt'')],
         distance = 0, collection = ''nec'', keyword_matches = Some 3\<rparr>,
        \<lparr>content = ''The SOLAR design tool'', metadata = [(''source'', MStr ''c.txt'')],
         distance = 2 / 3, collection = ''nec'', keyword_matches = Some 1\<rparr>]"
    by code_simp
  from keyword_search_spec [OF h, of "''Solar wiring of PANEL''" 3] e h k show ?thesis
    by simp
qed

section \<open>Semantic search\<close>

lemma hits_loop_spec:
  assumes "\<forall>i\<in>set idxs. i < length (metadatas r)"
    and "case distances r of None \<Rightarrow> True | Some ds \<Rightarrow> \<forall>i\<in>set idxs. i < length ds"
  shows "hits_loop name r idxs results = (results @ map (spec_semantic_hit name r) idxs, None)"
  using assms
proof (induction idxs arbitrary: results)
  case Nil
  then show ?case by simp
next
  case (Cons i rest)
  have r1: "\<forall>i\<in>set rest. i < length (metadatas r)"
    using Cons.prems(1) by simp
  have r2: "case distances r of None \<Rightarrow> True | Some ds \<Rightarrow> \<forall>i\<in>set rest. i < length ds"
    using Cons.prems(2) by (simp split: option.splits)
  show ?case
  proof (cases "distances r")
    case None
    with Cons.prems Cons.IH [OF r1 r2] show ?thesis
      by (simp add: spec_semantic_hit_def)
  next
    case (Some ds)
    with Cons.prems Cons.IH [OF r1 r2] show ?thesis
      by (simp add: spec_semantic_hit_def)
  qed
qed

lemma search_collection_spec:
  assumes "query_well_formed v k nc"
  shows "search_collection v k results nc = results @ spec_semantic_hits v k nc"
proof (cases "coll_count (snd nc)")
  case (Inl e)
  then show ?thesis
    by (simp add: search_collection_def spec_semantic_hits_def)
next
  case cnt: (Inr n)
  show ?thesis
  proof (cases "n = 0")
    case True
    with cnt show ?thesis
      by (simp add: search_collection_def spec_semantic_hits_def)
  next
    case False
    show ?thesis
    proof (cases "coll_query (snd nc) v (min k (int n))")
      case (Inl e)
      with cnt False show ?thesis
        by (simp add: search_collection_def spec_semantic_hits_def)
    next
      case (Inr r)
      with assms cnt have wf: "\<forall>i\<in>set [0..<length (documents r)]. i < length (metadatas r)"
        "case distances r of None \<Rightarrow> True
         | Some ds \<Rightarrow> \<forall>i\<in>set [0..<length (documents r)]. i < length ds"
        by (auto simp: query_well_formed_def split: option.splits)
      from hits_loop_spec [OF wf] Inr cnt False show ?thesis
        by (simp add: search_collection_def spec_semantic_hits_def)
    qed
  qed
qed

lemma foldl_search_collection_spec:
  assumes "list_all (query_well_formed v k) ncs"
  shows "foldl (search_collection v k) results ncs
         = results @ concat (map (spec_semantic_hits v k) ncs)"
  using assms
  by (induction ncs arbitrary: results) (simp_all add: search_collection_spec)

lemma length_py_take: "0 \<le> k \<Longrightarrow> length (py_take k xs) = min (nat k) (length xs)"
  by (auto simp: py_take_def py_index_def)

text \<open>
  C5: \<open>search_documents\<close> returns the empty list when the query embedding fails, and its
  result is always sorted ascending by distance. When the replies of the store are well
  formed and the embedding succeeds, the result is the first \<open>k\<close> of the distance-sorted
  merge of the hits of the selected collections, each hit tagged with its collection, where
  a collection with zero records contributes nothing and any other is asked for its
  min(k, size) nearest neighbours. For one selected collection of \<open>n\<close> records and \<open>k \<ge> n\<close>,
  with a store that returns \<open>n\<close> documents when asked for \<open>n\<close> neighbours, exactly \<open>n\<close>
  results are returned; none when the collection is empty.
\<close>

theorem search_documents_spec:
  "(generate_embeddings (embed_content dp) query = [] \<longrightarrow> search_documents dp query doc_type k = [])
   \<and> sorted (map distance (search_documents dp query doc_type k))
   \<and> (list_all (query_well_formed (generate_embeddings (embed_content dp) query) k)
         (select_collections dp doc_type)
      \<longrightarrow> generate_embeddings (embed_content dp) query \<noteq> []
      \<longrightarrow> search_documents dp query doc_type k
          = py_take k (sort_key distance
              (concat (map (spec_semantic_hits (generate_embeddings (embed_content dp) query) k)
                         (select_collections dp doc_type)))))
   \<and> (list_all (query_well_formed (generate_embeddings (embed_content dp) query) k)
         (select_collections dp doc_type)
      \<longrightarrow> select_collections dp doc_type = [nc]
      \<longrightarrow> coll_count (snd nc) = Inr n
      \<longrightarrow> int n \<le> k
      \<longrightarrow> n = 0 \<or> (\<exists>r. coll_query (snd nc) (generate_embeddings (embed_content dp) query) (int n)
                            = Inr r \<and> length (documents r) = n)
      \<longrightarrow> generate_embeddings (embed_content dp) query \<noteq> []
      \<longrightarrow> length (search_documents dp query doc_type k) = n)"
proof -
  let ?v = "generate_embeddings (embed_content dp) query"
  let ?ncs = "select_collections dp doc_type"
  have a: "?v = [] \<longrightarrow> search_documents dp query doc_type k = []"
    by (simp add: search_documents_def)
  have b: "sorted (map distance (search_documents dp query doc_type k))"
  proof (cases "?v = []")
    case True
    then show ?thesis
      by (simp add: search_documents_def)
  next
    case False
    have "sorted (map distance (py_take k (sort_key distance
             (foldl (search_collection ?v k) [] ?ncs))))"
      by (rule sorted_map_py_take) (rule sorted_sort_key)
    with False show ?thesis
      by (simp add: search_documents_def Let_def)
  qed
  have c: "search_documents dp query doc_type k
          = py_take k (sort_key distance (concat (map (spec_semantic_hits ?v k) ?ncs)))"
    if wf: "list_all (query_well_formed ?v k) ?ncs" and ne: "?v \<noteq> []"
    using foldl_search_collection_spec [OF wf, of "[]"] ne
    by (simp add: search_documents_def Let_def)
  have d: "length (search_documents dp query doc_type k) = n"
    if wf: "list_all (query_well_formed ?v k) ?ncs" and one: "?ncs = [nc]"
      and cnt: "coll_count (snd nc) = Inr n" and nk: "int n \<le> k"
      and q: "n = 0 \<or> (\<exists>r. coll_query (snd nc) ?v (int n) = Inr r \<and> length (documents r) = n)"
      and ne: "?v \<noteq> []"
  proof -
    have mn: "min k (int n) = int n"
      using nk by simp
    have "length (spec_semantic_hits ?v k nc) = n"
      using cnt q mn by (auto simp: spec_semantic_hits_def)
    then have "length (sort_key distance (concat (map (spec_semantic_hits ?v k) ?ncs))) = n"
      by (simp add: one)
    moreover have "0 \<le> k"
      using nk by linarith
    ultimately show ?thesis
      using nk by (simp add: c [OF wf ne] length_py_take)
  qed
  from a b c d show ?thesis
    by blast
qed


theorem search_documents_spec_witness:
  "generate_embeddings
       (embed_content (example_processor\<lparr>embed_content := (\<lambda>m c t. Inl ServiceError)\<rparr>))
       ''solar'' = []
   \<and> search_documents (example_processor\<lparr>embed_content := (\<lambda>m c t. Inl ServiceError)\<rparr>)
        ''solar'' None 5 = []
   \<and> generate_embeddings (embed_content example_processor) ''solar'' = [1]
   \<and> list_all (query_well_formed [1] 5) (select_collections example_processor (Some ''NEC''))
   \<and> select_collections example_processor (Some ''NEC'')
       = [(''nec'', nec_collection example_processor)]
   \<and> coll_count (nec_collection example_processor) = Inr 3
   \<and> search_documents example_processor ''solar'' (Some ''NEC'') 5
       = [\<lparr>content = ''Solar panel wiring guide'', metadata = [(''source'', MStr ''a.txt'')],
           distance = 0, collection = ''nec'', keyword_matches = None\<rparr>,
          \<lparr>content = ''Grounding of circuits'', metadata = [(''source'', MStr ''b.txt'')],
           distance = 1, collection = ''nec'', keyword_matches = None\<rparr>,
          \<lparr>content = ''The SOLAR design tool'', metadata = [(''source'', MStr ''c.txt'')],
           distance = 2, collection = ''nec'', keyword_matches = None\<rparr>]
   \<and> length (search_documents example_processor ''solar'' (Some ''NEC'') 5) = 3
   \<and> coll_count (wattmonk_collection example_processor) = Inr 0
   \<and> length (search_documents example_processor ''solar'' (Some ''wattmonk'') 5) = 0"
proof -
  let ?down = "example_processor\<lparr>embed_content := (\<lambda>m c t. Inl ServiceError)\<rparr>"
  let ?nec = "(''nec'', nec_collection example_processor)"
  let ?wm = "(''wattmonk'', wattmonk_collection example_processor)"
  have f: "generate_embeddings (embed_content ?down) ''solar'' = []"
    by (simp add: generate_embeddings_def)
  have v: "generate_embeddings (embed_content example_processor) ''solar'' = [1]"
    by (simp add: generate_embeddings_def example_processor_def)
  have w1: "list_all (query_well_formed [1] 5) (select_collections example_processor (Some ''NEC''))"
    by code_simp
  have w2: "list_all (query_well_formed [1] 5)
              (select_collections example_processor (Some ''wattmonk''))"
    by code_simp
  have l1: "py_lower ''NEC'' = ''nec''"
    by code_simp
  have l2: "py_lower ''wattmonk'' = ''wattmonk''"
    by code_simp
  have s1: "select_collections example_processor (Some ''NEC'') = [?nec]"
    by (simp add: select_collections_def l1)
  have s2: "select_collections example_processor (Some ''wattmonk'') = [?wm]"
    by (simp add: select_collections_def l2)
  have c1: "coll_count (nec_collection example_processor) = Inr 3"
    by (simp add: example_processor_def example_store_def store_handle_def)
  have c2: "coll_count (wattmonk_collection example_processor) = Inr 0"
    by (simp add: example_processor_def store_handle_def)
  have q1: "\<exists>r. coll_query (nec_collection example_processor) [1] (int 3) = Inr r
                \<and> length (documents r) = 3"
    by (simp add: example_processor_def example_store_def store_handle_def Let_def)
  have e: "py_take 5 (sort_key distance
              (concat (map (spec_semantic_hits [1] 5)
                         (select_collections example_processor (Some ''NEC'')))))
       = [\<lparr>content = ''Solar panel wiring guide'', metadata = [(''source'', MStr ''a.txt'')],
           distance = 0, collection = ''nec'', keyword_matches = None\<rparr>,
          \<lparr>content = ''Grounding of circuits'', metadata = [(''source'', MStr ''b.txt'')],
           distance = 1, collection = ''nec'', keyword_matches = None\<rparr>,
          \<lparr>content = ''The SOLAR design tool'', metadata = [(''source'', MStr ''c.txt'')],
           distance = 2, collection = ''nec'', keyword_matches = None\<rparr>]"
    by code_simp
  have ne: "[1::real] \<noteq> []"
    by simp
  have nk: "int 3 \<le> (5::int)" "int 0 \<le> (5::int)"
    by simp_all
  have r0: "search_documents ?down ''solar'' None 5 = []"
    using search_documents_spec [of ?down "''solar''" None 5] f by blast
  note nec = search_documents_spec [of example_processor "''solar''" "Some ''NEC''" 5 ?nec 3,
      unfolded v snd_conv]
  note wm = search_documents_spec [of example_processor "''solar''" "Some ''wattmonk''" 5 ?wm 0,
      unfolded v snd_conv]
  have r1: "search_documents example_processor ''solar'' (Some ''NEC'') 5
            = py_take 5 (sort_key distance
                (concat (map (spec_semantic_hits [1] 5)
                           (select_collections example_processor (Some ''NEC'')))))"
    using nec w1 ne by blast
  have r2: "length (search_documents example_processor ''solar'' (Some ''NEC'') 5) = 3"
    using nec w1 ne s1 c1 q1 nk by blast
  have r3: "length (search_documents example_processor ''solar'' (Some ''wattmonk'') 5) = 0"
    using wm w2 ne s2 c2 nk by blast
  from f r0 v w1 s1 c1 r1 [unfolded e] r2 c2 r3 show ?thesis
    by (intro conjI)
qed

section \<open>Retrieval merge\<close>

lemma dedup_loop_spec:
  "dedup_loop rs seen unique
   = unique @ spec_first_by_key (\<lambda>r. py_slice (content r) 0 100)
                (filter (\<lambda>r. py_slice (content r) 0 100 \<notin> seen) rs)"
proof (induction rs arbitrary: seen unique)
  case Nil
  then show ?case by simp
next
  case (Cons r rs)
  let ?key = "\<lambda>r. py_slice (content r) 0 100"
  show ?case
    by (simp add: Cons.IH Let_def conj_commute)
qed

lemma set_spec_first_by_key: "set (spec_first_by_key key xs) \<subseteq> set xs"
proof (induction key xs rule: spec_first_by_key.induct)
  case (1 key)
  then show ?case by simp
next
  case (2 key x xs)
  then show ?case by auto
qed

lemma distinct_spec_first_by_key: "distinct (map key (spec_first_by_key key xs))"
proof (induction key xs rule: spec_first_by_key.induct)
  case (1 key)
  then show ?case by simp
next
  case (2 key x xs)
  have "key x \<notin> key ` set (spec_first_by_key key (filter (\<lambda>y. key y \<noteq> key x) xs))"
    using set_spec_first_by_key [of key "filter (\<lambda>y. key y \<noteq> key x) xs"] by auto
  with 2 show ?case by simp
qed

lemma keys_spec_first_by_key: "key ` set (spec_first_by_key key xs) = key ` set xs"
proof (induction key xs rule: spec_first_by_key.induct)
  case (1 key)
  then show ?case by simp
next
  case (2 key x xs)
  then show ?case by auto
qed

lemma py_slice_0: "py_slice xs 0 (int n) = take n xs"
  by (simp add: py_slice_def py_index_def min_def)

text \<open>
  C7: in \<open>retrieve_context\<close> keyword search runs exactly when the lower-cased query contains
  a high-priority term, or contains a specific term while semantic search returned fewer
  than 2 results. When it runs, the keyword results are put before the semantic results,
  of the results with the same first 100 characters of content only the first is kept
  (so the kept results have pairwise different first 100 characters), and the first \<open>k\<close>
  of these are returned; otherwise the semantic results are returned as they are.
\<close>

theorem retrieve_context_spec:
  "should_try_keyword query (search_documents dp query doc_type k)
     = (list_ex (\<lambda>t. contains t (py_lower query)) high_priority_terms
        \<or> list_ex (\<lambda>t. contains t (py_lower query)) specific_terms
          \<and> length (search_documents dp query doc_type k) < 2)
   \<and> retrieve_context dp query doc_type k
     = (if should_try_keyword query (search_documents dp query doc_type k)
        then py_take k (spec_first_by_key (\<lambda>r. take 100 (content r))
                          (keyword_search dp query doc_type k
                           @ search_documents dp query doc_type k))
        else search_documents dp query doc_type k)
   \<and> distinct (map (\<lambda>r. take 100 (content r))
        (spec_first_by_key (\<lambda>r. take 100 (content r))
           (keyword_search dp query doc_type k @ search_documents dp query doc_type k)))"
proof -
  have a: "should_try_keyword query (search_documents dp query doc_type k)
     = (list_ex (\<lambda>t. contains t (py_lower query)) high_priority_terms
        \<or> list_ex (\<lambda>t. contains t (py_lower query)) specific_terms
          \<and> length (search_documents dp query doc_type k) < 2)"
    by (simp add: should_try_keyword_def Let_def)
  have key: "(\<lambda>r. py_slice (content r) 0 100) = (\<lambda>r. take 100 (content r))"
    using py_slice_0 [of _ 100] by auto
  have b: "retrieve_context dp query doc_type k
     = (if should_try_keyword query (search_documents dp query doc_type k)
        then py_take k (spec_first_by_key (\<lambda>r. take 100 (content r))
                          (keyword_search dp query doc_type k
                           @ search_documents dp query doc_type k))
        else search_documents dp query doc_type k)"
    by (simp add: retrieve_context_def Let_def dedup_loop_spec key)
  from a b distinct_spec_first_by_key show ?thesis
    by blast
qed


theorem retrieve_context_spec_witness:
  "should_try_keyword ''zippy solar'' (search_documents example_processor ''zippy solar'' None 3)
   \<and> retrieve_context example_processor ''zippy solar'' None 3
     = [\<lparr>content = ''Solar panel wiring guide'', metadata = [(''source'', MStr ''a.txt'')],
         distance = 1 / 2, collection = ''nec'', keyword_matches = Some 1\<rparr>,
        \<lparr>content = ''The SOLAR design tool'', metadata = [(''source'', MStr ''c.txt'')],
         distance = 1 / 2, collection = ''nec'', keyword_matches = Some 1\<rparr>,
        \<lparr>content = ''Grounding of circuits'', metadata = [(''source'', MStr ''b.txt'')],
         distance = 1, collection = ''nec'', keyword_matches = None\<rparr>]
   \<and> \<not> should_try_keyword ''solar tool''
         (search_documents example_processor ''solar tool'' None 3)
   \<and> retrieve_context example_processor ''solar tool'' None 3
     = search_documents example_processor ''solar tool'' None 3"
proof -
  have t: "should_try_keyword ''zippy solar''
             (search_documents example_processor ''zippy solar'' None 3)"
    by code_simp
  have e: "py_take 3 (spec_first_by_key (\<lambda>r. take 100 (content r))
             (keyword_search example_processor ''zippy solar'' None 3
              @ search_documents example_processor ''zippy solar'' None 3))
     = [\<lparr>content = ''Solar panel wiring guide'', metadata = [(''source'', MStr ''a.txt'')],
         distance = 1 / 2, collection = ''nec'', keyword_matches = Some 1\<rparr>,
        \<lparr>content = ''The SOLAR design tool'', metadata = [(''source'', MStr ''c.txt'')],
         distance = 1 / 2, collection = ''nec'', keyword_matches = Some 1\<rparr>,
        \<lparr>content = ''Grounding of circuits'', metadata = [(''source'', MStr ''b.txt'')],
         distance = 1, collection = ''nec'', keyword_matches = None\<rparr>]"
    by code_simp
  have n: "\<not> should_try_keyword ''solar tool''
             (search_documents example_processor ''solar tool'' None 3)"
    by code_simp
  have r1: "retrieve_context example_processor ''zippy solar'' None 3
            = py_take 3 (spec_first_by_key (\<lambda>r. take 100 (content r))
                (keyword_search example_processor ''zippy solar'' None 3
                 @ search_documents example_processor ''zippy solar'' None 3))"
    using retrieve_context_spec [of "''zippy solar''" example_processor None 3] t by simp
  have r2: "retrieve_context example_processor ''solar tool'' None 3
            = search_documents example_processor ''solar tool'' None 3"
    using retrieve_context_spec [of "''solar tool''" example_processor None 3] n by simp
  from t r1 [unfolded e] n r2 show ?thesis
    by (intro conjI)
qed

section \<open>The task type of the embedding calls\<close>

lemma generate_embeddings_cong:
  assumes "\<forall>m c. svc m c ''retrieval_document'' = svc' m c ''retrieval_document''"
  shows "generate_embeddings svc = generate_embeddings svc'"
  by (simp add: generate_embeddings_def fun_eq_iff assms split: sum.splits)

lemma process_batch_cong:
  assumes "generate_embeddings (env_embed e1) = generate_embeddings (env_embed e2)"
    and "env_md5 e1 = env_md5 e2" and "env_add e1 = env_add e2"
  shows "process_batch e1 p dt bs i chunks st = process_batch e2 p dt bs i chunks st"
  using assms
  by (induction chunks arbitrary: i st) (simp_all add: Let_def split: sum.splits)

lemma process_batches_unfold:
  "batch_start < length chunks \<Longrightarrow>
   process_batches env p dt chunks batch_start st
   = process_batches env p dt chunks (batch_start + 10)
       (process_batch env p dt batch_start 0 (take 10 (drop batch_start chunks)) st)"
  by (subst process_batches.simps)
     (simp add: Let_def py_slice_def py_index_def min_def nat_diff_distrib)

lemma process_batches_done:
  "\<not> batch_start < length chunks \<Longrightarrow> process_batches env p dt chunks batch_start st = st"
  by (subst process_batches.simps) simp

lemma process_batches_cong:
  assumes "generate_embeddings (env_embed e1) = generate_embeddings (env_embed e2)"
    and "env_md5 e1 = env_md5 e2" and "env_add e1 = env_add e2"
  shows "process_batches e1 p dt chunks bs st = process_batches e2 p dt chunks bs st"
proof (induction "length chunks - bs" arbitrary: bs st rule: less_induct)
  case less
  show ?case
  proof (cases "bs < length chunks")
    case True
    then have "length chunks - (bs + 10) < length chunks - bs"
      by simp
    from less [OF this] True show ?thesis
      by (simp add: process_batches_unfold process_batch_cong [OF assms])
  next
    case False
    then show ?thesis
      by (simp add: process_batches_done)
  qed
qed

text \<open>
  C9 as amended: query-time and ingestion-time embedding go through the same function
  \<open>generate_embeddings\<close>, which passes the task type \<open>retrieval_document\<close> to the service in
  both uses: the embedding of a text, the semantic search and the ingestion of a document
  depend on the embedding service only through its answers for that task type.
\<close>

theorem embedding_task_type_document_only:
  assumes "\<forall>m c. svc m c ''retrieval_document'' = svc' m c ''retrieval_document''"
  shows "generate_embeddings svc text = generate_embeddings svc' text
     \<and> search_documents (dp\<lparr>embed_content := svc\<rparr>) query doc_type k
       = search_documents (dp\<lparr>embed_content := svc'\<rparr>) query doc_type k
     \<and> process_document (env\<lparr>env_embed := svc\<rparr>) colls file_path dt
       = process_document (env\<lparr>env_embed := svc'\<rparr>) colls file_path dt"
proof -
  have g: "generate_embeddings svc = generate_embeddings svc'"
    using assms by (rule generate_embeddings_cong)
  have sc: "select_collections (dp\<lparr>embed_content := x\<rparr>) doc_type
            = select_collections dp doc_type" for x
    by (simp add: select_collections_def)
  have s: "search_documents (dp\<lparr>embed_content := svc\<rparr>) query doc_type k
       = search_documents (dp\<lparr>embed_content := svc'\<rparr>) query doc_type k"
    by (simp add: search_documents_def g sc Let_def)
  have b: "process_batches (env\<lparr>env_embed := svc\<rparr>) file_path dt chunks 0 st
           = process_batches (env\<lparr>env_embed := svc'\<rparr>) file_path dt chunks 0 st" for chunks st
    by (rule process_batches_cong) (simp_all add: g)
  have p: "process_document (env\<lparr>env_embed := svc\<rparr>) colls file_path dt
       = process_document (env\<lparr>env_embed := svc'\<rparr>) colls file_path dt"
    by (simp add: process_document_def b Let_def split: sum.splits option.splits)
  from g s p show ?thesis
    by simp
qed

text \<open>
  C9 as stated (the query embedding passes a query-oriented task type, distinct from the
  one used at ingestion) fails: with an embedding service that answers only the task type
  \<open>retrieval_query\<close> the query embedding fails and the search returns nothing, while a
  service that answers only \<open>retrieval_document\<close> serves the search.
\<close>

theorem search_task_type_counterexample:
  "generate_embeddings query_only_service ''solar'' = []
   \<and> generate_embeddings document_only_service ''solar'' = [1]
   \<and> search_documents (example_processor\<lparr>embed_content := query_only_service\<rparr>)
        ''solar'' None 3 = []
   \<and> length (search_documents (example_processor\<lparr>embed_content := document_only_service\<rparr>)
        ''solar'' None 3) = 3"
  by code_simp

theorem embedding_task_type_document_only_witness:
  "(\<forall>m c. document_only_service m c ''retrieval_document''
           = every_task_service m c ''retrieval_document'')
   \<and> generate_embeddings document_only_service ''solar''
     = generate_embeddings every_task_service ''solar''
   \<and> search_documents (example_processor\<lparr>embed_content := document_only_service\<rparr>)
        ''solar'' None 3
     = search_documents (example_processor\<lparr>embed_content := every_task_service\<rparr>)
         ''solar'' None 3
   \<and> process_document (example_env\<lparr>env_embed := document_only_service\<rparr>)
        ([], []) ''manual.txt'' ''nec''
     = process_document (example_env\<lparr>env_embed := every_task_service\<rparr>)
         ([], []) ''manual.txt'' ''nec''"
proof -
  have h: "\<forall>m c. document_only_service m c ''retrieval_document''
                 = every_task_service m c ''retrieval_document''"
    by (simp add: document_only_service_def every_task_service_def)
  from h embedding_task_type_document_only [of document_only_service every_task_service]
  show ?thesis
    by blast
qed

section \<open>Ingestion\<close>

lemma spec_ingested_ids_append:
  "spec_ingested_ids env p k (xs @ ys)
   = spec_ingested_ids env p k xs \<union> spec_ingested_ids env p (k + length xs) ys"
  by (induction xs arbitrary: k) auto

lemma process_batch_ids:
  assumes "\<forall>s r. \<exists>s'. env_add env s r = Inr s' \<and> ids_of s' = insert (rec_id r) (ids_of s)"
  shows "ids_of (fst (process_batch env p dt bs i chunks st))
         = ids_of (fst st) \<union> spec_ingested_ids env p (bs + i) chunks"
proof (induction chunks arbitrary: i st)
  case Nil
  then show ?case by simp
next
  case (Cons chunk rest)
  let ?r = "\<lparr>rec_id = chunk_id (env_md5 env) p (bs + i) chunk,
             rec_embedding = generate_embeddings (env_embed env) chunk,
             rec_document = chunk,
             rec_metadata = [(''source'', MStr (basename p)),
                             (''chunk_index'', MInt (int (bs + i))),
                             (''document_type'', MStr dt),
                             (''file_path'', MStr p)]\<rparr>"
  show ?case
  proof (cases "generate_embeddings (env_embed env) chunk = []")
    case True
    with Cons.IH [of "i + 1" st] show ?thesis
      by (simp add: Let_def)
  next
    case False
    from assms obtain s' where s': "env_add env (fst st) ?r = Inr s'"
      "ids_of s' = insert (rec_id ?r) (ids_of (fst st))"
      by blast
    with False Cons.IH [of "i + 1" "(s', snd st + 1)"] show ?thesis
      by (simp add: Let_def)
  qed
qed

lemma process_batches_ids:
  assumes "\<forall>s r. \<exists>s'. env_add env s r = Inr s' \<and> ids_of s' = insert (rec_id r) (ids_of s)"
  shows "ids_of (fst (process_batches env p dt chunks bs st))
         = ids_of (fst st) \<union> spec_ingested_ids env p bs (drop bs chunks)"
proof (induction "length chunks - bs" arbitrary: bs st rule: less_induct)
  case less
  show ?case
  proof (cases "bs < length chunks")
    case False
    then show ?thesis
      by (simp add: process_batches_done)
  next
    case True
    then have m: "length chunks - (bs + 10) < length chunks - bs"
      by simp
    have split: "drop bs chunks = take 10 (drop bs chunks) @ drop (bs + 10) chunks"
      by (metis add.commute append_take_drop_id drop_drop)
    have tail: "spec_ingested_ids env p (bs + length (take 10 (drop bs chunks)))
                  (drop (bs + 10) chunks)
                = spec_ingested_ids env p (bs + 10) (drop (bs + 10) chunks)"
    proof (cases "bs + 10 \<le> length chunks")
      case True
      then show ?thesis by (simp add: min_def)
    next
      case False
      then show ?thesis by simp
    qed
    have "spec_ingested_ids env p bs (drop bs chunks)
          = spec_ingested_ids env p bs (take 10 (drop bs chunks))
            \<union> spec_ingested_ids env p (bs + 10) (drop (bs + 10) chunks)"
      using spec_ingested_ids_append [of env p bs "take 10 (drop bs chunks)" "drop (bs + 10) chunks"]
        split tail by simp
    with less [OF m] process_batch_ids [OF assms, of p dt bs 0] True show ?thesis
      by (simp add: process_batches_unfold Un_assoc)
  qed
qed

lemma process_document_ids:
  assumes add: "\<forall>s r. \<exists>s'. env_add env s r = Inr s' \<and> ids_of s' = insert (rec_id r) (ids_of s)"
    and run: "process_document env colls p dt = Some (ok, colls')"
  shows "\<exists>A. (\<forall>colls0 ok0 colls0'. process_document env colls0 p dt = Some (ok0, colls0') \<longrightarrow>
                ids_of (fst colls0') = ids_of (fst colls0) \<union> (if py_lower dt = ''nec'' then A else {})
              \<and> ids_of (snd colls0') = ids_of (snd colls0) \<union> (if py_lower dt = ''nec'' then {} else A))"
proof (cases "read_document_text (env_fs env) p")
  case (Inl e)
  then have "\<forall>colls0 ok0 colls0'. process_document env colls0 p dt = Some (ok0, colls0') \<longrightarrow>
                ids_of (fst colls0') = ids_of (fst colls0) \<union> (if py_lower dt = ''nec'' then {} else {})
              \<and> ids_of (snd colls0') = ids_of (snd colls0) \<union> (if py_lower dt = ''nec'' then {} else {})"
    by (auto simp: process_document_def)
  then show ?thesis by blast
next
  case (Inr body)
  show ?thesis
  proof (cases "py_strip body = []")
    case True
    with Inr have "\<forall>colls0 ok0 colls0'. process_document env colls0 p dt = Some (ok0, colls0') \<longrightarrow>
                ids_of (fst colls0') = ids_of (fst colls0) \<union> (if py_lower dt = ''nec'' then {} else {})
              \<and> ids_of (snd colls0') = ids_of (snd colls0) \<union> (if py_lower dt = ''nec'' then {} else {})"
      by (auto simp: process_document_def)
    then show ?thesis by blast
  next
    case False
    with Inr run obtain chunks where ch: "chunk_text body 2000 200 200 = Some chunks"
      by (auto simp: process_document_def split: option.splits)
    have "\<forall>colls0 ok0 colls0'. process_document env colls0 p dt = Some (ok0, colls0') \<longrightarrow>
                ids_of (fst colls0') = ids_of (fst colls0)
                   \<union> (if py_lower dt = ''nec'' then spec_ingested_ids env p 0 chunks else {})
              \<and> ids_of (snd colls0') = ids_of (snd colls0)
                   \<union> (if py_lower dt = ''nec'' then {} else spec_ingested_ids env p 0 chunks)"
      using Inr False ch process_batches_ids [OF add, of p dt chunks 0]
      by (auto simp: process_document_def Let_def)
    then show ?thesis by blast
  qed
qed

lemma chunk_key_eq_iff:
  "chunk_key p i c1 = chunk_key p i c2 \<longleftrightarrow> take 100 c1 = take 100 c2"
  using py_slice_0 [of c1 100] py_slice_0 [of c2 100]
  by (simp add: chunk_key_def)

lemma chunk_id_unfold:
  "chunk_id md5 p i c = md5 (p @ ''_'' @ py_str_nat i @ ''_'' @ take 100 c)"
  using py_slice_0 [of c 100] by (simp add: chunk_id_def chunk_key_def)

lemma store_upsert_ids: "rec_id ` set (store_upsert s r) = insert (rec_id r) (rec_id ` set s)"
  by (induction s) auto

lemma store_add_contract:
  "\<forall>s r. \<exists>s'. store_add s r = Inr s' \<and> rec_id ` set s' = insert (rec_id r) (rec_id ` set s)"
  by (simp add: store_add_def store_upsert_ids)

lemma chunk_loop_unfold:
  "chunk_cond text mc st \<Longrightarrow>
   chunk_loop text cs ov mc st = chunk_loop text cs ov mc (chunk_body text cs ov st)"
  by (subst chunk_loop.simps) simp

lemma chunk_loop_exit:
  "\<not> chunk_cond text mc st \<Longrightarrow> chunk_loop text cs ov mc st = Some (snd st)"
  by (subst chunk_loop.simps) simp

lemma chunk_loop_repeat:
  assumes s: "s < int (length text)"
    and step: "\<And>chunks. chunk_body text cs ov (s, chunks) = (s, chunks @ [c])"
  shows "chunk_loop text cs ov mc (s, chunks)
         = Some (chunks @ replicate (nat (mc - int (length chunks))) c)"
proof (induction "nat (mc - int (length chunks))" arbitrary: chunks)
  case 0
  then have "\<not> chunk_cond text mc (s, chunks)"
    by (simp add: chunk_cond_def)
  with 0 show ?case
    by (simp add: chunk_loop_exit)
next
  case (Suc n)
  then have c: "chunk_cond text mc (s, chunks)"
    using s by (simp add: chunk_cond_def)
  have n: "n = nat (mc - int (length (chunks @ [c])))"
    using Suc.hyps(2) by simp
  have "chunk_loop text cs ov mc (s, chunks) = chunk_loop text cs ov mc (s, chunks @ [c])"
    using chunk_loop_unfold [OF c] step by simp
  also have "\<dots> = Some ((chunks @ [c]) @ replicate (nat (mc - int (length (chunks @ [c])))) c)"
    by (rule Suc.hyps(1) [OF n])
  also have "(chunks @ [c]) @ replicate (nat (mc - int (length (chunks @ [c])))) c
             = chunks @ replicate (nat (mc - int (length chunks))) c"
    using Suc.hyps(2) n by (simp add: replicate_app_Cons_same) (metis replicate_Suc)
  finally show ?case .
qed

lemma py_strip_replicate:
  assumes "\<not> py_isspace c"
  shows "py_strip (replicate n c) = replicate n c"
proof (cases n)
  case 0
  then show ?thesis by (simp add: py_strip_def)
next
  case (Suc k)
  have d: "dropWhile py_isspace (replicate (Suc k) c) = replicate (Suc k) c"
    using assms by simp
  show ?thesis
    unfolding py_strip_def Suc d rev_replicate d ..
qed

lemma chunk_text_200_letters:
  "chunk_text (replicate 200 (CHR ''a'')) 2000 200 200
   = Some (replicate 200 (replicate 200 (CHR ''a'')))"
proof -
  let ?t = "replicate 200 (CHR ''a'')"
  have sp: "\<not> py_isspace (CHR ''a'')"
    by (simp add: py_isspace_def)
  have step: "chunk_body ?t 2000 200 (0, chunks) = (0, chunks @ [?t])" for chunks
    by (simp add: chunk_body_def chunk_window_def py_slice_def py_index_def
        py_strip_replicate [OF sp])
  have "chunk_loop ?t 2000 200 200 (0, [])
        = Some ([] @ replicate (nat (200 - int (length ([] :: string list)))) ?t)"
    by (rule chunk_loop_repeat) (simp_all add: step)
  then show ?thesis
    by (simp add: chunk_text_def)
qed

lemma process_document_short_text:
  assumes "read_document_text (env_fs env) p = Inr body"
    and "py_strip body \<noteq> []" and "length body \<le> 100"
  shows "process_document env colls p dt = None"
proof -
  have "body \<noteq> []"
    using assms(2) by (auto simp: py_strip_def)
  then have "chunk_text body 2000 200 200 = None"
    using assms(3) by (intro chunk_text_short_diverges) simp_all
  with assms show ?thesis
    by (simp add: process_document_def)
qed

text \<open>
  C3 as stated (chunks with different text at the same path and index get different
  identifiers) fails, whatever the hash function: only the first 100 characters of the
  chunk enter the hashed string, so two chunks that differ after their first 100
  characters get the same identifier.
\<close>

theorem chunk_id_same_prefix_counterexample:
  "\<not> (\<exists>md5. \<forall>p i c1 c2. c1 \<noteq> c2 \<longrightarrow> chunk_id md5 p i c1 \<noteq> chunk_id md5 p i c2)"
proof
  assume "\<exists>md5. \<forall>p i c1 c2. c1 \<noteq> c2 \<longrightarrow> chunk_id md5 p i c1 \<noteq> chunk_id md5 p i c2"
  then obtain md5 where
    h: "\<And>p i c1 c2. c1 \<noteq> c2 \<Longrightarrow> chunk_id md5 p i c1 \<noteq> chunk_id md5 p i c2"
    by blast
  let ?c1 = "replicate 100 (CHR ''a'') @ ''x''"
  let ?c2 = "replicate 100 (CHR ''a'') @ ''y''"
  have "?c1 \<noteq> ?c2"
    by simp
  moreover have "chunk_id md5 ''doc.txt'' 0 ?c1 = chunk_id md5 ''doc.txt'' 0 ?c2"
    by (simp add: chunk_id_unfold)
  ultimately show False
    using h by blast
qed

text \<open>
  C3 as amended: the identifier of a chunk is the hash of its document path, its sequence
  index and the first 100 characters of its text. Chunks at the same path and index with
  the same first 100 characters get the same identifier; chunks whose first 100 characters
  differ are hashed from different strings, and get different identifiers when the hash
  does not collide on these two strings. With a store keyed by id whose \<open>add\<close> succeeds,
  processing the same file with the same corpus label a second time leaves the set of
  stored ids of both collections, and so their record counts, as the first run left them.
\<close>

theorem chunk_identity:
  assumes add: "\<forall>s r. \<exists>s'. env_add env s r = Inr s' \<and> ids_of s' = insert (rec_id r) (ids_of s)"
    and run1: "process_document env colls p dt = Some (ok1, colls1)"
    and run2: "process_document env colls1 p dt = Some (ok2, colls2)"
  shows "chunk_id (env_md5 env) p i c
           = env_md5 env (p @ ''_'' @ py_str_nat i @ ''_'' @ take 100 c)
     \<and> (chunk_key p i c1 = chunk_key p i c2 \<longleftrightarrow> take 100 c1 = take 100 c2)
     \<and> (take 100 c1 = take 100 c2
          \<longrightarrow> chunk_id (env_md5 env) p i c1 = chunk_id (env_md5 env) p i c2)
     \<and> (take 100 c1 \<noteq> take 100 c2
          \<longrightarrow> inj_on (env_md5 env) {chunk_key p i c1, chunk_key p i c2}
          \<longrightarrow> chunk_id (env_md5 env) p i c1 \<noteq> chunk_id (env_md5 env) p i c2)
     \<and> ids_of (fst colls2) = ids_of (fst colls1)
     \<and> ids_of (snd colls2) = ids_of (snd colls1)"
proof -
  have a: "chunk_id (env_md5 env) p i c
           = env_md5 env (p @ ''_'' @ py_str_nat i @ ''_'' @ take 100 c)"
    by (rule chunk_id_unfold)
  have b: "chunk_key p i c1 = chunk_key p i c2 \<longleftrightarrow> take 100 c1 = take 100 c2"
    by (rule chunk_key_eq_iff)
  have c: "take 100 c1 = take 100 c2
           \<longrightarrow> chunk_id (env_md5 env) p i c1 = chunk_id (env_md5 env) p i c2"
    by (simp add: chunk_id_unfold)
  have d: "take 100 c1 \<noteq> take 100 c2
          \<longrightarrow> inj_on (env_md5 env) {chunk_key p i c1, chunk_key p i c2}
          \<longrightarrow> chunk_id (env_md5 env) p i c1 \<noteq> chunk_id (env_md5 env) p i c2"
    using b by (auto simp: chunk_id_def inj_on_def)
  from process_document_ids [OF add run1] obtain A where
    A: "\<And>colls0 ok0 colls0'. process_document env colls0 p dt = Some (ok0, colls0') \<Longrightarrow>
          ids_of (fst colls0') = ids_of (fst colls0) \<union> (if py_lower dt = ''nec'' then A else {})
        \<and> ids_of (snd colls0') = ids_of (snd colls0) \<union> (if py_lower dt = ''nec'' then {} else A)"
    by blast
  from A [OF run1] A [OF run2] have e: "ids_of (fst colls2) = ids_of (fst colls1)"
    and f: "ids_of (snd colls2) = ids_of (snd colls1)"
    by auto
  from a b c d e f show ?thesis
    by (intro conjI)
qed

lemma example_manual_runs:
  "\<exists>ok colls'. process_document example_env colls ''manual.txt'' ''nec'' = Some (ok, colls')"
proof -
  have l: "py_lower ''manual.txt'' = ''manual.txt''"
    by code_simp
  have r: "read_document_text (env_fs example_env) ''manual.txt''
           = Inr (replicate 200 (CHR ''a''))"
    by (simp add: read_document_text_def example_env_def l suffix_to_prefix)
  have sp: "py_strip (replicate 200 (CHR ''a'')) = replicate 200 (CHR ''a'')"
    by (rule py_strip_replicate) (simp add: py_isspace_def)
  show ?thesis
    by (simp add: process_document_def r sp chunk_text_200_letters Let_def)
qed

text \<open>
  C2 (every public operation returns a value for every input). \<open>process_document\<close> does
  not: for the text file \<open>notes.txt\<close> holding the five characters \<open>hello\<close> the text is read
  and not blank, \<open>chunk_text\<close> never leaves its loop, and the call never returns.
\<close>

theorem process_document_hangs_on_short_file:
  "read_document_text (env_fs example_env) ''notes.txt'' = Inr ''hello''
   \<and> py_strip ''hello'' = ''hello''
   \<and> chunk_text ''hello'' 2000 200 200 = None
   \<and> process_document example_env ([], []) ''notes.txt'' ''nec'' = None"
proof -
  have l: "py_lower ''notes.txt'' = ''notes.txt''"
    by code_simp
  have r: "read_document_text (env_fs example_env) ''notes.txt'' = Inr ''hello''"
    by (simp add: read_document_text_def example_env_def l suffix_to_prefix)
  have s: "py_strip ''hello'' = ''hello''"
    by code_simp
  have c: "chunk_text ''hello'' 2000 200 200 = None"
    by (rule chunk_text_short_diverges) simp_all
  have p: "process_document example_env ([], []) ''notes.txt'' ''nec'' = None"
    using r by (rule process_document_short_text) (simp_all add: s)
  from r s c p show ?thesis
    by (intro conjI)
qed

lemma process_document_ids_of_chunks:
  assumes add: "\<forall>s r. \<exists>s'. env_add env s r = Inr s' \<and> ids_of s' = insert (rec_id r) (ids_of s)"
    and rd: "read_document_text (env_fs env) p = Inr body"
    and ne: "py_strip body \<noteq> []"
    and ch: "chunk_text body 2000 200 200 = Some chunks"
    and nec: "py_lower dt = ''nec''"
    and run: "process_document env colls p dt = Some (ok, colls')"
  shows "ids_of (fst colls') = ids_of (fst colls) \<union> spec_ingested_ids env p 0 chunks"
  using rd ne ch nec run process_batches_ids [OF add, of p dt chunks 0]
  by (auto simp: process_document_def Let_def)

theorem chunk_identity_witness:
  "(\<forall>s r. \<exists>s'. env_add example_env s r = Inr s'
               \<and> rec_id ` set s' = insert (rec_id r) (rec_id ` set s))
   \<and> process_document example_env ([], []) ''manual.txt'' ''nec'' \<noteq> None
   \<and> process_document example_env
        (snd (the (process_document example_env ([], []) ''manual.txt'' ''nec'')))
        ''manual.txt'' ''nec'' \<noteq> None
   \<and> ''manual.txt_0_'' @ replicate 100 (CHR ''a'')
       \<in> rec_id ` set (fst (snd (the
             (process_document example_env ([], []) ''manual.txt'' ''nec''))))
   \<and> rec_id ` set (fst (snd (the
         (process_document example_env
            (snd (the (process_document example_env ([], []) ''manual.txt'' ''nec'')))
            ''manual.txt'' ''nec''))))
     = rec_id ` set (fst (snd (the
         (process_document example_env ([], []) ''manual.txt'' ''nec''))))"
proof -
  let ?t = "replicate 200 (CHR ''a'')"
  have add: "\<forall>s r. \<exists>s'. env_add example_env s r = Inr s'
               \<and> rec_id ` set s' = insert (rec_id r) (rec_id ` set s)"
    using store_add_contract by (simp add: example_env_def)
  from example_manual_runs [of "([], [])"] obtain ok1 colls1 where
    run1: "process_document example_env ([], []) ''manual.txt'' ''nec'' = Some (ok1, colls1)"
    by blast
  from example_manual_runs [of colls1] obtain ok2 colls2 where
    run2: "process_document example_env colls1 ''manual.txt'' ''nec'' = Some (ok2, colls2)"
    by blast
  have l: "py_lower ''manual.txt'' = ''manual.txt''"
    by code_simp
  have n: "py_lower ''nec'' = ''nec''"
    by code_simp
  have z: "py_str_nat 0 = ''0''"
    by code_simp
  have rd: "read_document_text (env_fs example_env) ''manual.txt'' = Inr ?t"
    by (simp add: read_document_text_def example_env_def l suffix_to_prefix)
  have sp: "py_strip ?t \<noteq> []"
    using py_strip_replicate [of "CHR ''a''" 200] by (simp add: py_isspace_def)
  have ids1: "rec_id ` set (fst colls1)
              = rec_id ` set (fst (([], []) :: stored_record list \<times> stored_record list))
                \<union> spec_ingested_ids example_env ''manual.txt'' 0 (replicate 200 ?t)"
    using add rd sp chunk_text_200_letters n run1 by (rule process_document_ids_of_chunks)
  have "replicate 200 ?t = ?t # replicate 199 ?t"
    by (simp add: numeral_eq_Suc)
  then have "chunk_id (env_md5 example_env) ''manual.txt'' 0 ?t
             \<in> spec_ingested_ids example_env ''manual.txt'' 0 (replicate 200 ?t)"
    by (simp add: generate_embeddings_def example_env_def)
  moreover have "chunk_id (env_md5 example_env) ''manual.txt'' 0 ?t
                 = ''manual.txt_0_'' @ replicate 100 (CHR ''a'')"
    by (simp add: chunk_id_unfold example_env_def z del: py_str_nat.simps)
  ultimately have mem: "''manual.txt_0_'' @ replicate 100 (CHR ''a'') \<in> rec_id ` set (fst colls1)"
    using ids1 by simp
  have same: "rec_id ` set (fst colls2) = rec_id ` set (fst colls1)"
    using chunk_identity [OF add run1 run2] by blast
  from add run1 run2 mem same show ?thesis
    by simp
qed

end
